theory Spec2Isabelle
  imports Main "HOL-Library.Extended_Nat" "HOL-Library.Sublist"
begin

section \<open>Document nodes\<close>

text \<open>
  The engine reads four things of a node: its kind, its tag name, its attributes and its
  children. A node is a finite tree; \<open>ident\<close> stands for the object reference, so that two
  nodes of one document are equal exactly when they are the same object.
  \<open>isTag\<close>, \<open>hasChildren\<close> and \<open>getChildren\<close> are the type tests of the tree
  utilities: an element is a tag, script or style node; elements, the document root and
  CDATA sections carry children.
\<close>

datatype node_type = TagT | ScriptT | StyleT | TextT | CommentT | DirectiveT | CDATAT | RootT

datatype node =
  Node (ident: nat) (ntype: node_type) (name: string)
       (attribs: "(string \<times> string) list") (children: "node list")

definition isTag :: "node \<Rightarrow> bool" where
  "isTag n = (ntype n = TagT \<or> ntype n = ScriptT \<or> ntype n = StyleT)"

definition hasChildren :: "node \<Rightarrow> bool" where
  "hasChildren n = (isTag n \<or> ntype n = RootT \<or> ntype n = CDATAT)"

definition getChildren :: "node \<Rightarrow> node list" where
  "getChildren n = (if hasChildren n then children n else [])"

text \<open>Document order is the pre-order traversal of the tree.\<close>

fun preorder :: "node \<Rightarrow> node list" where
  "preorder (Node i t nm ats cs) =
     Node i t nm ats cs #
       (if hasChildren (Node i t nm ats cs) then concat (map preorder cs) else [])"

text \<open>A search root is a single node or an array of nodes (\<open>AnyNode | AnyNode[]\<close>).\<close>

datatype search_root = Single node | Many "node list"

section \<open>Parsed selectors\<close>

text \<open>
  The token types of the selector parser. A pseudo-class carries a payload that is a nested
  selector list, a string, or null.
\<close>

datatype attr_action =
  ActAny | ActElement | ActEnd | ActEquals | ActExists | ActHyphen | ActNot | ActStart

datatype ignore_case = IgnoreCase bool | Quirks | IgnoreNull

datatype selector =
    Attribute string attr_action string ignore_case "string option"
  | Pseudo string data
  | PseudoElement string "string option"
  | Tag string "string option"
  | Universal "string option"
  | Adjacent | Child | Descendant | Parent | Sibling | ColumnCombinator
and data = DSel "selector list list" | DStr string | DNull

fun isTraversal :: "selector \<Rightarrow> bool" where
  "isTraversal Adjacent = True"
| "isTraversal Child = True"
| "isTraversal Descendant = True"
| "isTraversal Parent = True"
| "isTraversal Sibling = True"
| "isTraversal ColumnCombinator = True"
| "isTraversal _ = False"

definition UNIVERSAL_SELECTOR :: selector where
  "UNIVERSAL_SELECTOR = Universal None"

definition SCOPE_PSEUDO :: selector where
  "SCOPE_PSEUDO = Pseudo ''scope'' DNull"

section \<open>Strings and numbers of the host language\<close>

text \<open>
  Strings are modelled as ASCII. \<open>is_ws\<close> is the class \<open>\s\<close> restricted to ASCII,
  \<open>toLowerCase\<close> folds the letters A to Z, and \<open>split_ws\<close> is \<open>s.split(/\s+/)\<close>: the
  pieces between maximal runs of white space, with an empty piece before a leading and
  after a trailing run.
\<close>

definition is_ws :: "char \<Rightarrow> bool" where
  "is_ws c = (c = CHR '' '' \<or> (9::nat) \<le> of_char c \<and> of_char c \<le> (13::nat))"

definition is_digit :: "char \<Rightarrow> bool" where
  "is_digit c = ((48::nat) \<le> of_char c \<and> of_char c \<le> (57::nat))"

definition lower_char :: "char \<Rightarrow> char" where
  "lower_char c =
     (if (65::nat) \<le> of_char c \<and> of_char c \<le> (90::nat) then char_of (of_char c + (32::nat)) else c)"

definition toLowerCase :: "string \<Rightarrow> string" where
  "toLowerCase s = map lower_char s"

function split_ws_from :: "string \<Rightarrow> string \<Rightarrow> string list" where
  "split_ws_from cur [] = [cur]"
| "split_ws_from cur (c # cs) =
     (if is_ws c then cur # split_ws_from [] (dropWhile is_ws cs)
      else split_ws_from (cur @ [c]) cs)"
  by pat_completeness auto

termination
  by (relation "measure (\<lambda>(cur, s). length s)")
     (auto simp: less_Suc_eq_le length_dropWhile_le)

definition split_ws :: "string \<Rightarrow> string list" where
  "split_ws s = split_ws_from [] s"

text \<open>
  \<open>parseInt(s, 10)\<close>: leading white space, an optional sign, then the longest run of
  decimal digits. \<open>None\<close> stands for a result that \<open>isFinite\<close> rejects: NaN (no digit),
  or a magnitude that the number type rounds to infinity. A finite result is kept as the
  exact integer; the code compares it with array lengths only.
\<close>

definition parseInt10 :: "string \<Rightarrow> int option" where
  "parseInt10 s =
     (let t = dropWhile is_ws s;
          neg = (t \<noteq> [] \<and> hd t = CHR ''-'');
          u = (if t \<noteq> [] \<and> (hd t = CHR ''-'' \<or> hd t = CHR ''+'') then tl t else t);
          ds = takeWhile is_digit u;
          v = foldl (\<lambda>a c. 10 * a + (int (of_char c) - 48)) 0 ds
      in if ds = [] \<or> 2 ^ 1024 - 2 ^ 970 \<le> v then None
         else Some (if neg then - v else v))"

text \<open>
  A limit is a natural number or Infinity; negative and fractional limits are outside the
  model. \<open>slice_to\<close> is \<open>xs.slice(0, limit)\<close>.
\<close>

definition slice_to :: "enat \<Rightarrow> 'a list \<Rightarrow> 'a list" where
  "slice_to l xs = (case l of enat n \<Rightarrow> take n xs | \<infinity> \<Rightarrow> xs)"

text \<open>
  \<open>xs.slice(i)\<close>: from index \<open>i\<close> to the end; a negative \<open>i\<close> counts from the end and is
  clamped at the start of the array.
\<close>

definition slice_from :: "int \<Rightarrow> 'a list \<Rightarrow> 'a list" where
  "slice_from i xs = (if 0 \<le> i then drop (nat i) xs else drop (length xs - nat (- i)) xs)"

fun findIndex :: "('a \<Rightarrow> bool) \<Rightarrow> 'a list \<Rightarrow> nat option" where
  "findIndex P [] = None"
| "findIndex P (x # xs) = (if P x then Some 0 else map_option Suc (findIndex P xs))"

section \<open>Simple selector detection (cache.ts)\<close>

fun isSimpleIdSelector :: "selector list list \<Rightarrow> string option" where
  "isSimpleIdSelector [[Attribute nm act v ic ns]] =
     (if nm = ''id'' \<and> act = ActEquals then Some v else None)"
| "isSimpleIdSelector _ = None"

fun isSimpleClassSelector :: "selector list list \<Rightarrow> string option" where
  "isSimpleClassSelector [[Attribute nm act v ic ns]] =
     (if nm = ''class'' \<and> act = ActElement then Some v else None)"
| "isSimpleClassSelector _ = None"

fun isSimpleTagSelector :: "selector list list \<Rightarrow> string option" where
  "isSimpleTagSelector [[Tag nm ns]] = Some nm"
| "isSimpleTagSelector _ = None"

section \<open>Fast paths (index.ts, fastFindById, fastFindByClass, fastFindByTag)\<close>

text \<open>
  The three fast paths are the same loop around three different tests. The stack is kept
  with its top at the head of the list: \<open>stack.pop()\<close> takes the head, and pushing the
  children from the last to the first puts them, in order, in front of the rest. A hit
  that fills the result up to the limit leaves the loop at once (\<open>break\<close>).
\<close>

function fastFind_loop :: "(node \<Rightarrow> bool) \<Rightarrow> enat \<Rightarrow> node list \<Rightarrow> node list \<Rightarrow> node list" where
  "fastFind_loop hit limit stack results =
     (case stack of
        [] \<Rightarrow> results
      | node # rest \<Rightarrow>
          if \<not> enat (length results) < limit then results
          else if hit node \<and> limit \<le> enat (Suc (length results)) then results @ [node]
          else fastFind_loop hit limit (getChildren node @ rest)
                 (if hit node then results @ [node] else results))"
  by pat_completeness auto

termination fastFind_loop
proof -
  have kids: "sum_list (map size (getChildren n)) < size n" for n
  proof (cases n)
    case (Node i t nm ats cs)
    have "sum_list (map size cs) \<le> size_list size cs"
      by (induction cs) auto
    with Node show ?thesis by (simp add: getChildren_def)
  qed
  show ?thesis
    by (relation "measure (\<lambda>(hit, limit, stack, results). sum_list (map size stack))")
       (auto simp: kids)
qed

definition idHit :: "string \<Rightarrow> node \<Rightarrow> bool" where
  "idHit i node = (isTag node \<and> map_of (attribs node) ''id'' = Some i)"

definition classHit :: "string \<Rightarrow> node \<Rightarrow> bool" where
  "classHit className node =
     (isTag node \<and>
      (case map_of (attribs node) ''class'' of
         None \<Rightarrow> False
       | Some classAttr \<Rightarrow> classAttr \<noteq> [] \<and> className \<in> set (split_ws classAttr)))"

definition tagHit :: "string \<Rightarrow> node \<Rightarrow> bool" where
  "tagHit tagName node = (isTag node \<and> toLowerCase (name node) = toLowerCase tagName)"

definition fastFindById :: "node \<Rightarrow> string \<Rightarrow> enat \<Rightarrow> node list" where
  "fastFindById rt i limit = fastFind_loop (idHit i) limit [rt] []"

definition fastFindByClass :: "node \<Rightarrow> string \<Rightarrow> enat \<Rightarrow> node list" where
  "fastFindByClass rt className limit = fastFind_loop (classHit className) limit [rt] []"

definition fastFindByTag :: "node \<Rightarrow> string \<Rightarrow> enat \<Rightarrow> node list" where
  "fastFindByTag rt tagName limit = fastFind_loop (tagHit tagName) limit [rt] []"

section \<open>Options, compiled queries and the collaborators\<close>

text \<open>
  The options object, with the fields index.ts reads or writes. \<open>pseudos\<close> keeps the
  names of the registered pseudo-classes (\<open>Object.keys\<close>), \<open>adapter\<close> whether an adapter is
  present. \<open>rootFunc\<close> is a predicate compared by identity with \<open>boolbase.trueFunc\<close>: it is
  that function, the closure \<open>(el) => result.includes(el)\<close> installed by the positional
  resolver, or a function of the caller.
\<close>

datatype rootFn = TrueFunc | Includes "node list" | UserFunc nat

record options =
  xmlMode :: bool
  relativeSelector :: "bool option"
  pseudos :: "string list option"
  adapter :: bool
  root_opt :: "node option"
  context_opt :: "node list option"
  rootFunc :: "rootFn option"

text \<open>
  A compiled query is a predicate with the flag \<open>shouldTestNextSiblings\<close>;
  \<open>isTrueFunc\<close> says that the compiler returned the function \<open>boolbase.trueFunc\<close> itself.
\<close>

record query =
  test :: "node \<Rightarrow> bool"
  shouldTestNextSiblings :: bool
  isTrueFunc :: bool

datatype error = SyntaxError | CompileError | TypeError

text \<open>
  The code the engine calls and that is not part of index.ts and cache.ts: the selector
  parser, the compiler of plain selectors with its \<open>prepareContext\<close>, the tree utilities
  \<open>find\<close> (always called with \<open>recurse = true\<close>) and \<open>uniqueSort\<close>, and, from
  positionals.js and helpers.js, \<open>isFilter\<close>, \<open>getLimit\<close> and \<open>getDocumentRoot\<close>. They are
  parameters of the model. The parser and the compiler may raise.
\<close>

record deps =
  parse :: "string \<Rightarrow> error + selector list list"
  isFilter :: "selector \<Rightarrow> bool"
  getLimit :: "string \<Rightarrow> data \<Rightarrow> enat \<Rightarrow> enat"
  compileToken :: "selector list list \<Rightarrow> options \<Rightarrow> search_root option \<Rightarrow> error + query"
  prepareContext :: "search_root \<Rightarrow> bool \<Rightarrow> node list"
  domFind :: "(node \<Rightarrow> bool) \<Rightarrow> node list \<Rightarrow> enat \<Rightarrow> node list"
  uniqueSort :: "node list \<Rightarrow> node list"
  getDocumentRoot :: "node \<Rightarrow> node"

text \<open>
  Modelled from the spec: \<open>groupSelectors\<close> (helpers.js) is missing from the sources. It
  returns the plain and the filtered alternatives, partitioning the input and keeping the
  relative order within each; an alternative is filtered when it contains a positional
  filter.
\<close>

definition groupSelectors :: "deps \<Rightarrow> selector list list \<Rightarrow> selector list list \<times> selector list list" where
  "groupSelectors deps selectors =
     (filter (\<lambda>alt. \<not> list_ex (isFilter deps) alt) selectors,
      filter (\<lambda>alt. list_ex (isFilter deps) alt) selectors)"

section \<open>Plain selectors: find, filterElements, findElements\<close>

definition find_cs :: "deps \<Rightarrow> search_root \<Rightarrow> query \<Rightarrow> enat \<Rightarrow> node list" where
  "find_cs deps rt q limit =
     (let elems = prepareContext deps rt (shouldTestNextSiblings q)
      in domFind deps (\<lambda>node. isTag node \<and> test q node) elems limit)"

definition filterElements :: "deps \<Rightarrow> search_root \<Rightarrow> selector list list \<Rightarrow> options \<Rightarrow> error + node list" where
  "filterElements deps elements sel opts =
     (let els = filter isTag (case elements of Many ns \<Rightarrow> ns | Single n \<Rightarrow> [n])
      in if els = [] then Inr els
         else (case compileToken deps sel opts None of
                 Inl e \<Rightarrow> Inl e
               | Inr q \<Rightarrow> Inr (if isTrueFunc q then els else filter (test q) els)))"

text \<open>
  The fast paths are taken for a single-node root when the detector returns a non-empty
  string (\<open>if (simpleId)\<close> is false for null and for the empty string).
\<close>

definition fastPath :: "node \<Rightarrow> selector list list \<Rightarrow> enat \<Rightarrow> node list option" where
  "fastPath rt sel limit =
     (case isSimpleIdSelector sel of
        Some (c # cs) \<Rightarrow> Some (fastFindById rt (c # cs) limit)
      | _ \<Rightarrow>
       (case isSimpleClassSelector sel of
          Some (c # cs) \<Rightarrow> Some (fastFindByClass rt (c # cs) limit)
        | _ \<Rightarrow>
         (case isSimpleTagSelector sel of
            Some (c # cs) \<Rightarrow> Some (fastFindByTag rt (c # cs) limit)
          | _ \<Rightarrow> None)))"

text \<open>The general path of \<open>findElements\<close> with a freshly compiled query (lines 410 and 414).\<close>

definition compiledFind :: "deps \<Rightarrow> search_root \<Rightarrow> selector list list \<Rightarrow> options \<Rightarrow> enat \<Rightarrow> error + node list" where
  "compiledFind deps rt sel opts limit =
     (case compileToken deps sel opts (Some rt) of
        Inl e \<Rightarrow> Inl e
      | Inr q \<Rightarrow> Inr (find_cs deps rt q limit))"

text \<open>
  \<open>findElements\<close> as every caller in index.ts reaches it. The compiled-query cache is a
  weak map keyed by the identity of the array \<open>sel\<close>, and each caller passes an array made
  for that call (\<open>plain\<close> out of a fresh parse, the literals \<open>[sub]\<close> and
  \<open>[remainingSelector]\<close>), so the lookup of line 399 finds no entry and the query is
  compiled. The cache itself is modelled in section \<open>The compiled-query cache\<close>.
\<close>

definition findElements :: "deps \<Rightarrow> search_root \<Rightarrow> selector list list \<Rightarrow> options \<Rightarrow> enat \<Rightarrow> error + node list" where
  "findElements deps rt sel opts limit =
     (case (case rt of Single r \<Rightarrow> fastPath r sel limit | Many rs \<Rightarrow> None) of
        Some res \<Rightarrow> Inr res
      | None \<Rightarrow> compiledFind deps rt sel opts limit)"

section \<open>Positional filters (index.ts, lines 70 to 367)\<close>

text \<open>
  The loop of the filters \<open>even\<close> and \<open>odd\<close>: \<open>for (i = start; i < elems.length; i += 2)
  result.push(elems[i])\<close>.
\<close>

function stride2_loop :: "'a list \<Rightarrow> nat \<Rightarrow> 'a list \<Rightarrow> 'a list" where
  "stride2_loop elems i result =
     (if i < length elems then stride2_loop elems (i + 2) (result @ [elems ! i]) else result)"
  by pat_completeness auto

termination
  by (relation "measure (\<lambda>(elems, i, result). length elems - i)") auto

text \<open>\<open>typeof data === "string" ? parseInt(data, 10) : NaN\<close>\<close>

definition num_of :: "data \<Rightarrow> int option" where
  "num_of d = (case d of DStr s \<Rightarrow> parseInt10 s | _ \<Rightarrow> None)"

text \<open>
  The set \<open>found\<close> of \<open>filterParsed\<close> is a duplicate-free list; \<open>finish\<close> is the return
  statement after the loop.
\<close>

definition finish :: "node list \<Rightarrow> node list option \<Rightarrow> node list" where
  "finish elements found =
     (case found of
        None \<Rightarrow> []
      | Some f \<Rightarrow> if length f = length elements then elements
                  else filter (\<lambda>el. el \<in> set f) elements)"

text \<open>The weight of a selector, for the termination of the resolver.\<close>

fun weight :: "selector \<Rightarrow> nat" and weight_data :: "data \<Rightarrow> nat" where
  "weight (Pseudo n d) = 2 + weight_data d"
| "weight (Attribute nm act v ic ns) = 0"
| "weight (PseudoElement nm d) = 0"
| "weight (Tag nm ns) = 0"
| "weight (Universal ns) = 0"
| "weight Adjacent = 0"
| "weight Child = 0"
| "weight Descendant = 0"
| "weight Parent = 0"
| "weight Sibling = 0"
| "weight ColumnCombinator = 0"
| "weight_data (DSel S) = sum_list (map (\<lambda>alt. sum_list (map weight alt) + 3) S)"
| "weight_data (DStr s) = 0"
| "weight_data DNull = 0"

text \<open>
  The resolver. \<open>filterByPosition\<close> is the switch over the filter name; a name outside
  the switch leaves the function without a value, and the caller's read of
  \<open>result.length\<close> raises. \<open>isFilter\<close> is a type guard for pseudo-class tokens: when no
  token of the selector passes it, or the token found is not a pseudo-class, the reads of
  \<open>filter.name\<close> and \<open>filter.data\<close> are modelled as a raised TypeError. In
  \<open>filterBySelector\<close> the scope token pushed onto the alternative is the last element of
  the list passed on (no alternative is resolved twice within a call), and
  \<open>getDocumentRoot(elements[0])\<close> raises on an empty array, whose first element is
  undefined. The loop of \<open>filterParsed\<close> runs over the filtered alternatives that remain;
  \<open>i === filteredSelectors.length - 1\<close> holds when none remains after the current one.
\<close>

function filterByPosition :: "deps \<Rightarrow> string \<Rightarrow> node list \<Rightarrow> data \<Rightarrow> options \<Rightarrow> error + node list"
  and filterParsed :: "deps \<Rightarrow> selector list list \<Rightarrow> node list \<Rightarrow> options \<Rightarrow> error + node list"
  and filterParsed_loop :: "deps \<Rightarrow> node list \<Rightarrow> options \<Rightarrow> selector list list \<Rightarrow> node list option \<Rightarrow> error + node list"
  and filterBySelector :: "deps \<Rightarrow> selector list \<Rightarrow> node list \<Rightarrow> options \<Rightarrow> error + node list"
  and findFilterElements :: "deps \<Rightarrow> search_root \<Rightarrow> selector list \<Rightarrow> options \<Rightarrow> bool \<Rightarrow> enat \<Rightarrow> error + node list"
where
  "filterByPosition deps nm elems d opts =
     (if nm = ''first'' \<or> nm = ''lt'' then Inr elems
      else if nm = ''last'' then Inr (if elems \<noteq> [] then [elems ! (length elems - 1)] else elems)
      else if nm = ''nth'' \<or> nm = ''eq'' then
        (case num_of d of
           None \<Rightarrow> Inr []
         | Some n \<Rightarrow>
             (let index = (if n < 0 then int (length elems) + n else n)
              in Inr (if 0 \<le> index \<and> index < int (length elems) then [elems ! nat index] else [])))
      else if nm = ''gt'' then
        (case num_of d of
           None \<Rightarrow> Inr []
         | Some n \<Rightarrow> Inr (if n < int (length elems) - 1 then slice_from (n + 1) elems else []))
      else if nm = ''even'' then Inr (stride2_loop elems 0 [])
      else if nm = ''odd'' then Inr (stride2_loop elems 1 [])
      else if nm = ''not'' then
        (case d of
           DSel S \<Rightarrow>
             (case filterParsed deps S elems opts of
                Inl e \<Rightarrow> Inl e
              | Inr filtered \<Rightarrow> Inr (filter (\<lambda>e. e \<notin> set filtered) elems))
         | _ \<Rightarrow> if elems = [] then Inr [] else Inl TypeError)
      else Inl TypeError)"
| "filterParsed deps selector elements opts =
     (if elements = [] then Inr []
      else
        (let plainSelectors = fst (groupSelectors deps selector);
             filteredSelectors = snd (groupSelectors deps selector)
         in if plainSelectors \<noteq> [] then
              (case filterElements deps (Many elements) plainSelectors opts of
                 Inl e \<Rightarrow> Inl e
               | Inr filtered \<Rightarrow>
                   if filteredSelectors = [] then Inr filtered
                   else filterParsed_loop deps elements opts filteredSelectors
                          (if filtered \<noteq> [] then Some (remdups filtered) else None))
            else filterParsed_loop deps elements opts filteredSelectors None))"
| "filterParsed_loop deps elements opts fsels found =
     (case fsels of
        [] \<Rightarrow> Inr (finish elements found)
      | filteredSelector # rest \<Rightarrow>
          if (case found of Some f \<Rightarrow> length f = length elements | None \<Rightarrow> False)
          then Inr (finish elements found)
          else if (case found of
                     Some f \<Rightarrow> filter (\<lambda>e. isTag e \<and> e \<notin> set f) elements
                   | None \<Rightarrow> elements) = []
          then Inr (finish elements found)
          else
            (case filterBySelector deps filteredSelector elements opts of
               Inl e \<Rightarrow> Inl e
             | Inr filtered \<Rightarrow>
                 if filtered \<noteq> [] then
                   (case found of
                      None \<Rightarrow>
                        if rest = [] then Inr filtered
                        else filterParsed_loop deps elements opts rest (Some (remdups filtered))
                    | Some f \<Rightarrow>
                        filterParsed_loop deps elements opts rest (Some (remdups (f @ filtered))))
                 else filterParsed_loop deps elements opts rest found))"
| "filterBySelector deps selector elements opts =
     (if list_ex isTraversal selector then
        (case (case root_opt opts of
                 Some r \<Rightarrow> Inr r
               | None \<Rightarrow> (case elements of
                            [] \<Rightarrow> Inl TypeError
                          | e # es \<Rightarrow> Inr (getDocumentRoot deps e))) of
           Inl e \<Rightarrow> Inl e
         | Inr r \<Rightarrow>
             findFilterElements deps (Single r) (selector @ [SCOPE_PSEUDO])
               (opts\<lparr>context_opt := Some elements, relativeSelector := Some False\<rparr>)
               True (enat (length elements)))
      else findFilterElements deps (Many elements) selector opts False (enat (length elements)))"
| "findFilterElements deps rt selector opts queryForSelector totalLimit =
     (case findIndex (isFilter deps) selector of
        None \<Rightarrow> Inl TypeError
      | Some filterIndex \<Rightarrow>
         (case selector ! filterIndex of
            Pseudo nm d \<Rightarrow>
              (let sub = take filterIndex selector;
                   partLimit = (if length selector - 1 = filterIndex then totalLimit else \<infinity>);
                   limit = getLimit deps nm d partLimit
               in if limit = 0 then Inr []
                  else
                   (case (if sub = [] then
                            (case rt of
                               Single r \<Rightarrow> Inr (filter isTag (getChildren r))
                             | Many rs \<Rightarrow> Inr (filter isTag rs))
                          else if queryForSelector \<or> list_ex isTraversal sub
                            then findElements deps rt [sub] opts limit
                            else filterElements deps rt [sub] opts) of
                      Inl e \<Rightarrow> Inl e
                    | Inr elemsNoLimit \<Rightarrow>
                       (case filterByPosition deps nm (slice_to limit elemsNoLimit) d opts of
                          Inl e \<Rightarrow> Inl e
                        | Inr result \<Rightarrow>
                            if result = [] \<or> length selector = filterIndex + 1 then Inr result
                            else
                             (let remaining = drop (filterIndex + 1) selector;
                                  remainingHasTraversal = list_ex isTraversal remaining;
                                  leading = (remainingHasTraversal \<and> isTraversal (hd remaining));
                                  result' = (if leading \<and> (hd remaining = Sibling \<or> hd remaining = Adjacent)
                                             then prepareContext deps (Many result) True else result);
                                  remainingSelector = (if leading then UNIVERSAL_SELECTOR # remaining
                                                       else remaining);
                                  opts' = (if remainingHasTraversal
                                           then opts\<lparr>relativeSelector := Some False,
                                                     rootFunc := Some (Includes result')\<rparr>
                                           else if rootFunc opts \<noteq> None \<and> rootFunc opts \<noteq> Some TrueFunc
                                           then opts\<lparr>rootFunc := Some TrueFunc\<rparr>
                                           else opts)
                              in if list_ex (isFilter deps) remainingSelector
                                 then findFilterElements deps (Many result') remainingSelector opts'
                                        False totalLimit
                                 else if remainingHasTraversal
                                 then findElements deps (Many result') [remainingSelector] opts' totalLimit
                                 else filterElements deps (Many result') [remainingSelector] opts'))))
          | _ \<Rightarrow> Inl TypeError))"
  by pat_completeness auto

definition weight_alt :: "selector list \<Rightarrow> nat" where
  "weight_alt alt = sum_list (map weight alt)"

definition resolver_measure ::
  "((deps \<times> string \<times> node list \<times> data \<times> options) + (deps \<times> selector list list \<times> node list \<times> options)) +
   ((deps \<times> node list \<times> options \<times> selector list list \<times> node list option) +
    ((deps \<times> selector list \<times> node list \<times> options) +
     (deps \<times> search_root \<times> selector list \<times> options \<times> bool \<times> enat))) \<Rightarrow> nat" where
  "resolver_measure x =
     (case x of
        Inl (Inl (deps, nm, elems, d, opts)) \<Rightarrow> 4 * weight_data d + 4
      | Inl (Inr (deps, S, elements, opts)) \<Rightarrow> 4 * weight_data (DSel S) + 3
      | Inr (Inl (deps, elements, opts, fsels, found)) \<Rightarrow> 4 * weight_data (DSel fsels) + 2
      | Inr (Inr (Inl (deps, alt, elements, opts))) \<Rightarrow> 4 * (weight_alt alt + 2) + 1
      | Inr (Inr (Inr (deps, rt, sel, opts, q, l))) \<Rightarrow> 4 * weight_alt sel)"

termination filterByPosition
proof -
  have less: "k < length xs" if "findIndex P xs = Some k" for P :: "selector \<Rightarrow> bool" and xs k
    using that by (induction xs arbitrary: k) (auto split: if_splits)
  have filtered: "weight_data (DSel (snd (groupSelectors deps S))) \<le> weight_data (DSel S)"
    for deps S
    unfolding groupSelectors_def snd_conv by (induction S) auto
  have split: "weight_alt sel = weight_alt (take k sel) + weight (sel ! k) + weight_alt (drop (Suc k) sel)"
    if "k < length sel" for k sel
  proof -
    from that have "sel = take k sel @ sel ! k # drop (Suc k) sel"
      by (rule id_take_nth_drop)
    then have "weight_alt sel = weight_alt (take k sel @ sel ! k # drop (Suc k) sel)"
      by simp
    then show ?thesis by (simp add: weight_alt_def)
  qed
  show ?thesis
  proof (relation "measure resolver_measure", goal_cases)
    case 1 show ?case by simp
  next
    case 2 then show ?case by (simp add: resolver_measure_def)
  next
    case (3 deps selector)
    then show ?case
      using filtered [of deps selector] by (simp add: resolver_measure_def)
  next
    case (4 deps selector)
    then show ?case
      using filtered [of deps selector] by (simp add: resolver_measure_def)
  next
    case 5 then show ?case by (simp add: resolver_measure_def weight_alt_def)
  next
    case 6 then show ?case by (simp add: resolver_measure_def)
  next
    case 7 then show ?case by (simp add: resolver_measure_def)
  next
    case 8 then show ?case by (simp add: resolver_measure_def)
  next
    case 9 then show ?case by (simp add: resolver_measure_def weight_alt_def SCOPE_PSEUDO_def)
  next
    case 10 then show ?case by (simp add: resolver_measure_def)
  next
    case (11 deps rt selector opts queryForSelector totalLimit k nm d)
    then have "k < length selector" by (simp add: less)
    from split [OF this] 11 show ?case
      by (simp add: resolver_measure_def)
  next
    case (12 deps rt selector opts queryForSelector totalLimit k nm d)
    then have "k < length selector" by (simp add: less)
    from split [OF this] 12 show ?case
      by (auto simp add: resolver_measure_def weight_alt_def UNIVERSAL_SELECTOR_def)
  qed
qed

section \<open>The public operations (index.ts, lines 45 to 262)\<close>

text \<open>The selector argument is a string or a predicate of the caller.\<close>

datatype selector_arg = SelString string | SelFunc "node \<Rightarrow> bool"

fun some_filtered :: "deps \<Rightarrow> selector list list \<Rightarrow> node list \<Rightarrow> options \<Rightarrow> error + bool" where
  "some_filtered deps [] elements opts = Inr False"
| "some_filtered deps (sel # rest) elements opts =
     (case filterBySelector deps sel elements opts of
        Inl e \<Rightarrow> Inl e
      | Inr r \<Rightarrow> if r \<noteq> [] then Inr True else some_filtered deps rest elements opts)"

text \<open>
  \<open>some\<close>: the argument \<open>compileToken(plain, options)\<close> is evaluated before
  \<open>elements.some\<close> runs, and the filtered alternatives are tried only when the plain ones
  match no element.
\<close>

definition some :: "deps \<Rightarrow> node list \<Rightarrow> selector_arg \<Rightarrow> options \<Rightarrow> error + bool" where
  "some deps elements selector opts =
     (case selector of
        SelFunc f \<Rightarrow> Inr (list_ex f elements)
      | SelString s \<Rightarrow>
         (case parse deps s of
            Inl e \<Rightarrow> Inl e
          | Inr parsed \<Rightarrow>
             (let plain = fst (groupSelectors deps parsed);
                  filtered = snd (groupSelectors deps parsed)
              in case (if plain \<noteq> [] then
                         (case compileToken deps plain opts None of
                            Inl e \<Rightarrow> Inl e
                          | Inr q \<Rightarrow> Inr (list_ex (test q) elements))
                       else Inr False) of
                   Inl e \<Rightarrow> Inl e
                 | Inr b \<Rightarrow> if b then Inr True else some_filtered deps filtered elements opts)))"

definition is_match :: "deps \<Rightarrow> node \<Rightarrow> selector_arg \<Rightarrow> options \<Rightarrow> error + bool" where
  "is_match deps element selector opts = some deps [element] selector opts"

definition filter_cs :: "deps \<Rightarrow> string \<Rightarrow> node list \<Rightarrow> options \<Rightarrow> error + node list" where
  "filter_cs deps selector elements opts =
     (case parse deps selector of
        Inl e \<Rightarrow> Inl e
      | Inr parsed \<Rightarrow> filterParsed deps parsed elements opts)"

text \<open>\<open>filtered.map((sel) => findFilterElements(root, sel, options, true, limit))\<close>\<close>

fun map_filtered :: "deps \<Rightarrow> search_root \<Rightarrow> options \<Rightarrow> enat \<Rightarrow> selector list list \<Rightarrow> error + node list list" where
  "map_filtered deps rt opts limit [] = Inr []"
| "map_filtered deps rt opts limit (sel # rest) =
     (case findFilterElements deps rt sel opts True limit of
        Inl e \<Rightarrow> Inl e
      | Inr r \<Rightarrow>
         (case map_filtered deps rt opts limit rest of
            Inl e \<Rightarrow> Inl e
          | Inr rs \<Rightarrow> Inr (r # rs)))"

text \<open>
  \<open>select\<close>. A predicate is searched for with \<open>find(root, selector)\<close>, whose limit is
  the default, Infinity.
\<close>

definition select :: "deps \<Rightarrow> selector_arg \<Rightarrow> search_root \<Rightarrow> options \<Rightarrow> enat \<Rightarrow> error + node list" where
  "select deps selector rt opts limit =
     (case selector of
        SelFunc f \<Rightarrow>
          Inr (find_cs deps rt \<lparr>test = f, shouldTestNextSiblings = False, isTrueFunc = False\<rparr> \<infinity>)
      | SelString s \<Rightarrow>
         (case parse deps s of
            Inl e \<Rightarrow> Inl e
          | Inr parsed \<Rightarrow>
             (let plain = fst (groupSelectors deps parsed);
                  filtered = snd (groupSelectors deps parsed)
              in case map_filtered deps rt opts limit filtered of
                   Inl e \<Rightarrow> Inl e
                 | Inr results0 \<Rightarrow>
                    (case (if plain \<noteq> [] then
                             (case findElements deps rt plain opts limit of
                                Inl e \<Rightarrow> Inl e
                              | Inr r \<Rightarrow> Inr (results0 @ [r]))
                           else Inr results0) of
                       Inl e \<Rightarrow> Inl e
                     | Inr results \<Rightarrow>
                         if results = [] then Inr []
                         else if length results = 1 then Inr (results ! 0)
                         else Inr (uniqueSort deps (concat results))))))"

section \<open>An example environment and an example document\<close>

text \<open>The names of the positional filters (the type \<open>Filter\<close> of positionals.js).\<close>

definition filterNames :: "string list" where
  "filterNames = [''first'', ''lt'', ''last'', ''nth'', ''eq'', ''gt'', ''even'', ''odd'', ''not'']"

text \<open>
  Modelled from the spec: \<open>isFilter\<close> and \<open>getLimit\<close> (positionals.js) are missing from
  the sources. A positional filter is a pseudo-class with one of the nine filter names.
  The filter-to-limit rule bounds the number of candidates needed before the filter is
  applied: one for \<open>first\<close>, \<open>n\<close> for \<open>lt\<close> with payload \<open>n\<close> (at most the limit of the
  stage); the other filters need the full candidate set. These two definitions and the
  rest of this section are one instance of the collaborators, used for the examples; the
  general theorems below hold for every instance.
\<close>

fun ref_isFilter :: "selector \<Rightarrow> bool" where
  "ref_isFilter (Pseudo nm d) = (nm \<in> set filterNames)"
| "ref_isFilter _ = False"

definition ref_getLimit :: "string \<Rightarrow> data \<Rightarrow> enat \<Rightarrow> enat" where
  "ref_getLimit nm d partLimit =
     (if nm = ''first'' then 1
      else if nm = ''lt'' then
        (case num_of d of
           None \<Rightarrow> 0
         | Some n \<Rightarrow> if 0 \<le> n then min (enat (nat n)) partLimit else \<infinity>)
      else \<infinity>)"

text \<open>
  The parser on the selector strings of the examples, with the token lists the parser
  produces for them; a string outside the table stands for one the parser rejects.
\<close>

definition ref_parse :: "string \<Rightarrow> error + selector list list" where
  "ref_parse s =
     (case map_of
        [(''div'', [[Tag ''div'' None]]),
         (''DIV'', [[Tag ''DIV'' None]]),
         (''span'', [[Tag ''span'' None]]),
         (''div, span'', [[Tag ''div'' None], [Tag ''span'' None]]),
         (''div:first'', [[Tag ''div'' None, Pseudo ''first'' DNull]]),
         (''div:first, span'', [[Tag ''div'' None, Pseudo ''first'' DNull], [Tag ''span'' None]]),
         (''div:first span'',
            [[Tag ''div'' None, Pseudo ''first'' DNull, Descendant, Tag ''span'' None]]),
         (''div span:even'',
            [[Tag ''div'' None, Descendant, Tag ''span'' None, Pseudo ''even'' DNull]]),
         (''div:lt(2) ~ *'',
            [[Tag ''div'' None, Pseudo ''lt'' (DStr ''2''), Sibling, Universal None]]),
         ('':gt(0)'', [[Pseudo ''gt'' (DStr ''0'')]]),
         (''div:first span, span'',
            [[Tag ''div'' None, Pseudo ''first'' DNull, Descendant, Tag ''span'' None],
             [Tag ''span'' None]]),
         ('':scope'', [[Pseudo ''scope'' DNull]]),
         ('':scope ~ *'', [[Pseudo ''scope'' DNull, Sibling, Universal None]]),
         ('':even'', [[Pseudo ''even'' DNull]])] s of
        Some parsed \<Rightarrow> Inr parsed
      | None \<Rightarrow> Inl SyntaxError)"

text \<open>
  The compiler on a fragment of the plain selectors, relative to a document \<open>doc\<close>: tag
  names (compared as they are in XML mode, and with the selector's name folded to lower
  case otherwise), the universal selector, the attribute tests \<open>equals\<close>, \<open>element\<close> (a
  white-space separated token) and \<open>exists\<close>, the pseudo-class \<open>scope\<close> (membership in the
  context, which is the option \<open>context\<close> or else the root given to the compiler), and
  the combinators \<open>descendant\<close>, \<open>child\<close>, \<open>sibling\<close> and \<open>adjacent\<close>. An alternative is
  matched from its last token backwards, and the node that matches its first compound
  has to pass the \<open>rootFunc\<close> of the options when that is the membership test of the
  resolver; a selector list matches when one of its alternatives does. Anything else is
  rejected. The rewriting of relative selectors is not part of this instance (an
  alternative that starts with a combinator is rejected); it makes no difference for a
  root that is the document node or a child of it. The compiled query asks for the
  following siblings of the context, with \<open>shouldTestNextSiblings\<close>, when an alternative
  starts with \<open>:scope\<close> followed by a sibling or adjacent combinator.
\<close>

definition is_scope :: "selector \<Rightarrow> bool" where
  "is_scope tok = (case tok of Pseudo nm d \<Rightarrow> nm = ''scope'' | _ \<Rightarrow> False)"

definition is_sibling :: "selector \<Rightarrow> bool" where
  "is_sibling tok = (tok = Sibling \<or> tok = Adjacent)"

fun scope_sibling_start :: "selector list \<Rightarrow> bool" where
  "scope_sibling_start (a # b # rest) = (is_sibling a \<or> (is_scope a \<and> is_sibling b))"
| "scope_sibling_start [a] = is_sibling a"
| "scope_sibling_start [] = False"

fun ref_supported :: "selector \<Rightarrow> bool" where
  "ref_supported (Tag nm ns) = True"
| "ref_supported (Universal ns) = True"
| "ref_supported (Attribute nm act v ic ns) =
     (act = ActEquals \<or> act = ActExists \<or> (act = ActElement \<and> v \<noteq> [] \<and> \<not> list_ex is_ws v))"
| "ref_supported (Pseudo nm d) = (nm = ''scope'' \<and> d = DNull)"
| "ref_supported Descendant = True"
| "ref_supported Child = True"
| "ref_supported Sibling = True"
| "ref_supported Adjacent = True"
| "ref_supported _ = False"

fun ref_token :: "options \<Rightarrow> node list \<Rightarrow> selector \<Rightarrow> node \<Rightarrow> bool" where
  "ref_token opts cx (Tag nm ns) n = (name n = (if xmlMode opts then nm else toLowerCase nm))"
| "ref_token opts cx (Universal ns) n = True"
| "ref_token opts cx (Attribute nm act v ic ns) n =
     (case map_of (attribs n) nm of
        None \<Rightarrow> False
      | Some a \<Rightarrow> if act = ActEquals then a = v
                  else if act = ActElement then v \<in> set (split_ws a)
                  else True)"
| "ref_token opts cx (Pseudo nm d) n = (n \<in> set cx)"
| "ref_token opts cx _ n = False"

definition parent_in :: "node \<Rightarrow> node \<Rightarrow> node option" where
  "parent_in doc n = List.find (\<lambda>p. n \<in> set (getChildren p)) (preorder doc)"

definition ancestors_in :: "node \<Rightarrow> node \<Rightarrow> node list" where
  "ancestors_in doc n = filter (\<lambda>a. a \<noteq> n \<and> n \<in> set (preorder a)) (preorder doc)"

definition preceding_in :: "node \<Rightarrow> node \<Rightarrow> node list" where
  "preceding_in doc n =
     (case parent_in doc n of
        None \<Rightarrow> []
      | Some p \<Rightarrow> filter isTag (takeWhile (\<lambda>x. x \<noteq> n) (getChildren p)))"

definition rootFunc_holds :: "options \<Rightarrow> node \<Rightarrow> bool" where
  "rootFunc_holds opts n =
     (case rootFunc opts of
        Some (Includes ns) \<Rightarrow> n \<in> set ns
      | _ \<Rightarrow> True)"

fun ref_match_rev :: "node \<Rightarrow> options \<Rightarrow> node list \<Rightarrow> selector list \<Rightarrow> node \<Rightarrow> bool" where
  "ref_match_rev doc opts cx [] n = rootFunc_holds opts n"
| "ref_match_rev doc opts cx (tok # rest) n =
     (if tok = Descendant then
        list_ex (\<lambda>a. isTag a \<and> ref_match_rev doc opts cx rest a) (ancestors_in doc n)
      else if tok = Child then
        (case parent_in doc n of
           None \<Rightarrow> False
         | Some p \<Rightarrow> isTag p \<and> ref_match_rev doc opts cx rest p)
      else if tok = Sibling then
        list_ex (\<lambda>a. ref_match_rev doc opts cx rest a) (preceding_in doc n)
      else if tok = Adjacent then
        (preceding_in doc n \<noteq> [] \<and> ref_match_rev doc opts cx rest (last (preceding_in doc n)))
      else ref_token opts cx tok n \<and> ref_match_rev doc opts cx rest n)"

definition ref_compileToken ::
  "node \<Rightarrow> selector list list \<Rightarrow> options \<Rightarrow> search_root option \<Rightarrow> error + query" where
  "ref_compileToken doc sel opts ctx =
     (let cx = (case context_opt opts of
                  Some c \<Rightarrow> c
                | None \<Rightarrow> (case ctx of
                             None \<Rightarrow> []
                           | Some (Single n) \<Rightarrow> [n]
                           | Some (Many ns) \<Rightarrow> ns))
      in if list_all (\<lambda>alt. list_all ref_supported alt \<and> alt \<noteq> []
                              \<and> \<not> isTraversal (hd alt) \<and> \<not> isTraversal (last alt)) sel
         then Inr \<lparr>test = (\<lambda>n. list_ex (\<lambda>alt. ref_match_rev doc opts cx (rev alt) n) sel),
                   shouldTestNextSiblings = list_ex scope_sibling_start sel,
                   isTrueFunc = False\<rparr>
         else Inl CompileError)"

text \<open>
  The tree utilities, relative to a document \<open>doc\<close>. \<open>removeSubsets\<close> drops a node that
  occurs earlier in the array or lies below another node of the array. \<open>prepareContext\<close>
  gives the children of a single node and \<open>removeSubsets\<close> of an array, after appending
  the following sibling elements when asked to. \<open>find\<close> walks the given nodes and their
  descendants in pre-order and stops after the hit that exhausts the limit, which it tests
  after decrementing: a limit of zero still lets one hit through. \<open>uniqueSort\<close> removes
  duplicates and sorts by document position.
\<close>

fun removeSubsets_from :: "node list \<Rightarrow> node list \<Rightarrow> node list \<Rightarrow> node list" where
  "removeSubsets_from everything seen [] = []"
| "removeSubsets_from everything seen (x # xs) =
     (if x \<in> set seen \<or> list_ex (\<lambda>a. a \<noteq> x \<and> x \<in> set (preorder a)) everything
      then removeSubsets_from everything (x # seen) xs
      else x # removeSubsets_from everything (x # seen) xs)"

definition removeSubsets :: "node list \<Rightarrow> node list" where
  "removeSubsets ns = removeSubsets_from ns [] ns"

definition nextSiblings :: "node \<Rightarrow> node \<Rightarrow> node list" where
  "nextSiblings doc n =
     (case parent_in doc n of
        None \<Rightarrow> []
      | Some p \<Rightarrow> filter isTag (drop 1 (dropWhile (\<lambda>x. x \<noteq> n) (getChildren p))))"

definition ref_prepareContext :: "node \<Rightarrow> search_root \<Rightarrow> bool \<Rightarrow> node list" where
  "ref_prepareContext doc rt shouldTestSiblings =
     (if shouldTestSiblings then
        (let elems = (case rt of Single n \<Rightarrow> [n] | Many ns \<Rightarrow> ns)
         in removeSubsets (elems @ concat (map (nextSiblings doc) elems)))
      else (case rt of Single n \<Rightarrow> getChildren n | Many ns \<Rightarrow> removeSubsets ns))"

definition ref_domFind :: "(node \<Rightarrow> bool) \<Rightarrow> node list \<Rightarrow> enat \<Rightarrow> node list" where
  "ref_domFind t ns limit = slice_to (max 1 limit) (filter t (concat (map preorder ns)))"

definition ref_uniqueSort :: "node \<Rightarrow> node list \<Rightarrow> node list" where
  "ref_uniqueSort doc ns =
     filter (\<lambda>n. n \<in> set ns) (preorder doc) @ remdups (filter (\<lambda>n. n \<notin> set (preorder doc)) ns)"

definition ref_getDocumentRoot :: "node \<Rightarrow> node \<Rightarrow> node" where
  "ref_getDocumentRoot doc n = (if n \<in> set (preorder doc) then doc else n)"

definition ref_deps :: "node \<Rightarrow> deps" where
  "ref_deps doc =
     \<lparr>parse = ref_parse, isFilter = ref_isFilter, getLimit = ref_getLimit,
      compileToken = ref_compileToken doc, prepareContext = ref_prepareContext doc,
      domFind = ref_domFind, uniqueSort = ref_uniqueSort doc,
      getDocumentRoot = ref_getDocumentRoot doc\<rparr>"

text \<open>
  The example document: a root with the children \<open>div#1\<close> (holding \<open>span#2\<close>), \<open>div#3\<close>
  and \<open>span#4\<close>.
\<close>

definition ex_span2 :: node where
  "ex_span2 = Node 2 TagT ''span'' [] []"

definition ex_div1 :: node where
  "ex_div1 = Node 1 TagT ''div'' [(''id'', ''main''), (''class'', ''box big'')] [ex_span2]"

definition ex_div3 :: node where
  "ex_div3 = Node 3 TagT ''div'' [(''class'', ''box'')] []"

definition ex_span4 :: node where
  "ex_span4 = Node 4 TagT ''span'' [] []"

definition ex_doc :: node where
  "ex_doc = Node 0 RootT [] [] [ex_div1, ex_div3, ex_span4]"

definition ex_opts :: options where
  "ex_opts = \<lparr>xmlMode = False, relativeSelector = None, pseudos = None, adapter = False,
              root_opt = None, context_opt = None, rootFunc = None\<rparr>"

section \<open>Auxiliary functions for the proofs\<close>

text \<open>The elements at the even positions of a list, by recursion on the list.\<close>

fun evens :: "'a list \<Rightarrow> 'a list" where
  "evens [] = []"
| "evens [x] = [x]"
| "evens (x # y # zs) = x # evens zs"

text \<open>
  Names for two parts of \<open>findFilterElements\<close>: the candidates of a stage (the value of
  \<open>elemsNoLimit\<close>), and the resolution of the tokens after the filter.
\<close>

definition candidates :: "deps \<Rightarrow> search_root \<Rightarrow> selector list \<Rightarrow> options \<Rightarrow> bool \<Rightarrow> enat \<Rightarrow> error + node list" where
  "candidates deps rt sub opts queryForSelector limit =
     (if sub = [] then
        (case rt of
           Single r \<Rightarrow> Inr (filter isTag (getChildren r))
         | Many rs \<Rightarrow> Inr (filter isTag rs))
      else if queryForSelector \<or> list_ex isTraversal sub
        then findElements deps rt [sub] opts limit
        else filterElements deps rt [sub] opts)"

definition resolve_rest :: "deps \<Rightarrow> node list \<Rightarrow> selector list \<Rightarrow> options \<Rightarrow> enat \<Rightarrow> error + node list" where
  "resolve_rest deps result remaining opts totalLimit =
     (let remainingHasTraversal = list_ex isTraversal remaining;
          leading = (remainingHasTraversal \<and> isTraversal (hd remaining));
          result' = (if leading \<and> (hd remaining = Sibling \<or> hd remaining = Adjacent)
                     then prepareContext deps (Many result) True else result);
          remainingSelector = (if leading then UNIVERSAL_SELECTOR # remaining
                               else remaining);
          opts' = (if remainingHasTraversal
                   then opts\<lparr>relativeSelector := Some False,
                             rootFunc := Some (Includes result')\<rparr>
                   else if rootFunc opts \<noteq> None \<and> rootFunc opts \<noteq> Some TrueFunc
                   then opts\<lparr>rootFunc := Some TrueFunc\<rparr>
                   else opts)
      in if list_ex (isFilter deps) remainingSelector
         then findFilterElements deps (Many result') remainingSelector opts'
                False totalLimit
         else if remainingHasTraversal
         then findElements deps (Many result') [remainingSelector] opts' totalLimit
         else filterElements deps (Many result') [remainingSelector] opts')"

section \<open>Two more example documents\<close>

text \<open>A root whose only child \<open>div#1\<close> holds \<open>span#2\<close>, \<open>span#3\<close> and \<open>span#4\<close>.\<close>

definition ex2_span2 :: node where
  "ex2_span2 = Node 2 TagT ''span'' [] []"

definition ex2_span3 :: node where
  "ex2_span3 = Node 3 TagT ''span'' [] []"

definition ex2_span4 :: node where
  "ex2_span4 = Node 4 TagT ''span'' [] []"

definition ex2_div1 :: node where
  "ex2_div1 = Node 1 TagT ''div'' [] [ex2_span2, ex2_span3, ex2_span4]"

definition ex2_doc :: node where
  "ex2_doc = Node 0 RootT [] [] [ex2_div1]"

text \<open>
  A root with the children \<open>span#1\<close>, \<open>div#2\<close>, \<open>span#3\<close>, \<open>div#4\<close> and \<open>span#5\<close>.
\<close>

definition ex3_span1 :: node where
  "ex3_span1 = Node 1 TagT ''span'' [] []"

definition ex3_div2 :: node where
  "ex3_div2 = Node 2 TagT ''div'' [] []"

definition ex3_span3 :: node where
  "ex3_span3 = Node 3 TagT ''span'' [] []"

definition ex3_div4 :: node where
  "ex3_div4 = Node 4 TagT ''div'' [] []"

definition ex3_span5 :: node where
  "ex3_span5 = Node 5 TagT ''span'' [] []"

definition ex3_doc :: node where
  "ex3_doc = Node 0 RootT [] [] [ex3_span1, ex3_div2, ex3_span3, ex3_div4, ex3_span5]"

section \<open>Contracts of the collaborators\<close>

text \<open>
  Two contracts of the tree search, as the engine relies on them: it returns at most
  \<open>L\<close> hits for the limit \<open>L\<close>, and it returns hits in the pre-order of the nodes it is
  given.
\<close>

definition find_bounded :: "deps \<Rightarrow> nat \<Rightarrow> bool" where
  "find_bounded deps L = (\<forall>t ns. length (domFind deps t ns (enat L)) \<le> L)"







fun no_sibling_after_filter :: "deps \<Rightarrow> selector list \<Rightarrow> bool" where
  "no_sibling_after_filter deps [] = True"
| "no_sibling_after_filter deps (a # rest) =
     (\<not> (isFilter deps a \<and> scope_sibling_start rest) \<and> no_sibling_after_filter deps rest)"

section \<open>Contracts for empty inputs\<close>

text \<open>
  What the claim about empty inputs needs of the collaborators: \<open>isFilter\<close> accepts
  pseudo-class tokens with a filter name only; the tree utilities return nothing on an
  empty array; and \<open>select_parts\<close> lists the selector lists that \<open>select\<close> hands to the
  compiler on an empty root list (the plain alternatives, and the prefix before the first
  positional filter of each filtered alternative).
\<close>

definition filter_guard :: "deps \<Rightarrow> bool" where
  "filter_guard deps =
     (\<forall>tok. isFilter deps tok \<longrightarrow> (\<exists>nm d. tok = Pseudo nm d \<and> nm \<in> set filterNames))"

definition empty_search :: "deps \<Rightarrow> bool" where
  "empty_search deps =
     ((\<forall>b. prepareContext deps (Many []) b = []) \<and> (\<forall>t l. domFind deps t [] l = [])
      \<and> uniqueSort deps [] = [])"

definition select_parts :: "deps \<Rightarrow> selector list list \<Rightarrow> selector list list list" where
  "select_parts deps S =
     (if fst (groupSelectors deps S) = [] then [] else [fst (groupSelectors deps S)]) @
     concat (map (\<lambda>alt. case findIndex (isFilter deps) alt of
                           None \<Rightarrow> []
                         | Some k \<Rightarrow> if k = 0 then [] else [[take k alt]])
                 (snd (groupSelectors deps S)))"

section \<open>The compiled-query cache\<close>







section \<open>Properties of the positional filters\<close>

declare filterByPosition.simps [simp del] filterParsed.simps [simp del]
  filterParsed_loop.simps [simp del] filterBySelector.simps [simp del]
  findFilterElements.simps [simp del] fastFind_loop.simps [simp del]
  stride2_loop.simps [simp del]

lemma stride2_loop_evens: "stride2_loop xs i r = r @ evens (drop i xs)"
proof (induction xs i r rule: stride2_loop.induct)
  case (1 elems i result)
  show ?case
  proof (cases "i < length elems")
    case True
    then have d: "drop i elems = elems ! i # drop (Suc i) elems"
      by (simp add: Cons_nth_drop_Suc)
    have e: "evens (elems ! i # drop (Suc i) elems) = elems ! i # evens (drop (Suc (Suc i)) elems)"
    proof (cases "drop (Suc i) elems")
      case Nil
      then have "drop (Suc (Suc i)) elems = []" by simp
      with Nil show ?thesis by simp
    next
      case (Cons y zs)
      have "drop (Suc (Suc i)) elems = tl (drop (Suc i) elems)"
        by (simp add: drop_Suc tl_drop)
      with Cons show ?thesis by simp
    qed
    from True 1 d e show ?thesis
      by (subst stride2_loop.simps) simp
  next
    case False
    then show ?thesis by (subst stride2_loop.simps) simp
  qed
qed

lemma evens_nths: "evens xs = nths xs {i. even i}"
  by (induction xs rule: evens.induct) (simp_all add: nths_Cons)

lemma evens_tl_nths: "evens (drop 1 xs) = nths xs {i. odd i}"
  by (cases xs) (simp_all add: nths_Cons evens_nths)

lemma splice_evens: "splice (evens xs) (evens (drop 1 xs)) = xs"
proof (induction xs)
  case Nil
  show ?case by simp
next
  case (Cons x xs)
  then show ?case by (cases xs) simp_all
qed

lemma filterByPosition_even: "filterByPosition deps ''even'' elems d opts = Inr (nths elems {i. even i})"
  by (subst filterByPosition.simps) (simp add: stride2_loop_evens evens_nths)

lemma filterByPosition_odd: "filterByPosition deps ''odd'' elems d opts = Inr (nths elems {i. odd i})"
  using evens_tl_nths [of elems]
  by (subst filterByPosition.simps) (simp add: stride2_loop_evens)

lemma nths_disjoint: "distinct xs \<Longrightarrow> A \<inter> B = {} \<Longrightarrow> set (nths xs A) \<inter> set (nths xs B) = {}"
  by (auto simp: set_nths distinct_conv_nth)

lemma subseq_nths: "subseq (nths xs A) xs"
  using subseq_conv_nths by blast

lemma subseq_distinct: "subseq xs ys \<Longrightarrow> distinct ys \<Longrightarrow> distinct xs"
  by (auto simp: subseq_conv_nths)

lemma subseq_set: "subseq xs ys \<Longrightarrow> set xs \<subseteq> set ys"
  by (auto simp: subseq_conv_nths dest: in_set_nthsD)

lemma subseq_slice_to: "subseq (slice_to l xs) xs"
  by (cases l) (auto simp: slice_to_def take_is_prefix)

lemma subseq_slice_from: "subseq (slice_from i xs) xs"
  by (auto simp: slice_from_def suffix_drop)

lemma filterByPosition_first: "nm = ''first'' \<or> nm = ''lt'' \<Longrightarrow> filterByPosition deps nm elems d opts = Inr elems"
  by (subst filterByPosition.simps) auto

lemma filterByPosition_last:
  "filterByPosition deps ''last'' elems d opts = Inr (if elems \<noteq> [] then [last elems] else [])"
  by (subst filterByPosition.simps) (simp add: last_conv_nth)

lemma filterByPosition_eq:
  assumes "nm = ''nth'' \<or> nm = ''eq''"
  shows "filterByPosition deps nm elems d opts =
     (case num_of d of
        None \<Rightarrow> Inr []
      | Some n \<Rightarrow>
          (let index = (if n < 0 then int (length elems) + n else n)
           in Inr (if 0 \<le> index \<and> index < int (length elems) then [elems ! nat index] else [])))"
  using assms by (subst filterByPosition.simps) auto

lemma filterByPosition_gt:
  "filterByPosition deps ''gt'' elems d opts =
     (case num_of d of
        None \<Rightarrow> Inr []
      | Some n \<Rightarrow> Inr (if n < int (length elems) - 1 then slice_from (n + 1) elems else []))"
  by (subst filterByPosition.simps) simp

lemma filterByPosition_not:
  "filterByPosition deps ''not'' elems d opts =
     (case d of
        DSel S \<Rightarrow>
          (case filterParsed deps S elems opts of
             Inl e \<Rightarrow> Inl e
           | Inr filtered \<Rightarrow> Inr (filter (\<lambda>e. e \<notin> set filtered) elems))
      | _ \<Rightarrow> if elems = [] then Inr [] else Inl TypeError)"
  by (subst filterByPosition.simps) simp

lemma filterByPosition_subseq:
  assumes "filterByPosition deps nm elems d opts = Inr r"
  shows "subseq r elems"
proof -
  consider "nm = ''first'' \<or> nm = ''lt''" | "nm = ''last''" | "nm = ''nth'' \<or> nm = ''eq''"
    | "nm = ''gt''" | "nm = ''even''" | "nm = ''odd''" | "nm = ''not''"
    | "nm \<notin> set filterNames"
    by (auto simp: filterNames_def)
  then show ?thesis
  proof cases
    case 1
    with assms show ?thesis by (simp add: filterByPosition_first)
  next
    case 2
    with assms show ?thesis
      by (auto simp: filterByPosition_last subseq_singleton_left split: if_splits)
  next
    case 3
    with assms show ?thesis
      by (auto simp: filterByPosition_eq Let_def subseq_singleton_left split: option.splits if_splits)
  next
    case 4
    with assms show ?thesis
      by (auto simp: filterByPosition_gt subseq_slice_from split: option.splits if_splits)
  next
    case 5
    with assms show ?thesis by (auto simp: filterByPosition_even subseq_nths)
  next
    case 6
    with assms show ?thesis by (auto simp: filterByPosition_odd subseq_nths)
  next
    case 7
    with assms show ?thesis
      by (auto simp: filterByPosition_not split: data.splits sum.splits if_splits)
  next
    case 8
    with assms show ?thesis
      by (subst (asm) filterByPosition.simps) (auto simp: filterNames_def)
  qed
qed

lemma filterByPosition_total:
  assumes "nm \<in> set filterNames" "nm \<noteq> ''not''"
  shows "\<exists>r. filterByPosition deps nm elems d opts = Inr r"
  using assms
  by (subst filterByPosition.simps) (auto simp: filterNames_def Let_def split: option.splits)

lemma findFilterElements_stage:
  assumes "findIndex (isFilter deps) selector = Some k" and "selector ! k = Pseudo nm d"
    and "limit = getLimit deps nm d (if length selector - 1 = k then totalLimit else \<infinity>)"
  shows "findFilterElements deps rt selector opts qs totalLimit =
     (if limit = 0 then Inr []
      else
        (case candidates deps rt (take k selector) opts qs limit of
           Inl e \<Rightarrow> Inl e
         | Inr elemsNoLimit \<Rightarrow>
            (case filterByPosition deps nm (slice_to limit elemsNoLimit) d opts of
               Inl e \<Rightarrow> Inl e
             | Inr result \<Rightarrow>
                 if result = [] \<or> length selector = k + 1 then Inr result
                 else resolve_rest deps result (drop (k + 1) selector) opts totalLimit)))"
  unfolding candidates_def resolve_rest_def
  by (subst findFilterElements.simps) (simp only: assms option.case selector.case Let_def)

section \<open>Claims about the positional filters\<close>



lemma num_of_0: "num_of (DStr ''0'') = Some 0"
  by (simp add: num_of_def parseInt10_def is_ws_def is_digit_def)

lemma ex_nodes_distinct: "distinct [ex_div1, ex_div3, ex_span4]"
  by (simp add: ex_div1_def ex_div3_def ex_span4_def)



lemma ex_filterParsed_span:
  "filterParsed (ref_deps ex_doc) [[Tag ''span'' None]] [ex_div1, ex_div3, ex_span4] ex_opts
     = Inr [ex_span4]"
  by code_simp

text \<open>
  Claim C7. For a candidate list \<open>C\<close> and a nested selector list \<open>S\<close> on which
  \<open>filterParsed\<close> returns \<open>F\<close>, the filter \<open>not\<close> returns the candidates outside \<open>F\<close> in
  their original order: the set difference of \<open>C\<close> and \<open>F\<close>, disjoint from \<open>F\<close>, and
  covering \<open>C\<close> together with \<open>F\<close>.
\<close>

theorem not_filter_difference:
  assumes "filterParsed deps S C opts = Inr F"
  shows "filterByPosition deps ''not'' C (DSel S) opts = Inr (filter (\<lambda>e. e \<notin> set F) C)
         \<and> set (filter (\<lambda>e. e \<notin> set F) C) = set C - set F
         \<and> set (filter (\<lambda>e. e \<notin> set F) C) \<inter> set F = {}
         \<and> set C \<subseteq> set (filter (\<lambda>e. e \<notin> set F) C) \<union> set F"
  using assms by (auto simp: filterByPosition_not)

theorem not_filter_difference_witness:
  "filterParsed (ref_deps ex_doc) [[Tag ''span'' None]] [ex_div1, ex_div3, ex_span4] ex_opts
     = Inr [ex_span4]
   \<and> filterByPosition (ref_deps ex_doc) ''not'' [ex_div1, ex_div3, ex_span4]
        (DSel [[Tag ''span'' None]]) ex_opts = Inr [ex_div1, ex_div3]"
  using not_filter_difference [OF ex_filterParsed_span] ex_filterParsed_span
  by (simp add: ex_div1_def ex_div3_def ex_span4_def)

lemma nths3: "nths [a, b, c] {i. even i} = [a, c] \<and> nths [a, b, c] {i. odd i} = [b]"
  by (simp add: nths_Cons)

text \<open>
  Claim C8, as amended. The filter \<open>even\<close> returns the candidates at the even positions
  and \<open>odd\<close> those at the odd positions; interleaving the two results gives back the
  candidate list; and the two results share no element when the candidate list holds no
  element twice.
\<close>

theorem even_odd_partition:
  "filterByPosition deps ''even'' elems d opts = Inr (nths elems {i. even i})
   \<and> filterByPosition deps ''odd'' elems d opts = Inr (nths elems {i. odd i})
   \<and> splice (nths elems {i. even i}) (nths elems {i. odd i}) = elems
   \<and> (distinct elems \<longrightarrow> set (nths elems {i. even i}) \<inter> set (nths elems {i. odd i}) = {})"
proof -
  have "splice (nths elems {i. even i}) (nths elems {i. odd i}) = elems"
    using splice_evens [of elems] evens_tl_nths [of elems] evens_nths [of elems] by simp
  moreover have "distinct elems \<longrightarrow> set (nths elems {i. even i}) \<inter> set (nths elems {i. odd i}) = {}"
    by (auto intro!: nths_disjoint)
  ultimately show ?thesis
    by (simp add: filterByPosition_even filterByPosition_odd)
qed

theorem even_odd_partition_witness:
  "distinct [ex_div1, ex_div3, ex_span4]
   \<and> filterByPosition (ref_deps ex_doc) ''even'' [ex_div1, ex_div3, ex_span4] DNull ex_opts
       = Inr [ex_div1, ex_span4]
   \<and> filterByPosition (ref_deps ex_doc) ''odd'' [ex_div1, ex_div3, ex_span4] DNull ex_opts
       = Inr [ex_div3]
   \<and> set [ex_div1, ex_span4] \<inter> set [ex_div3] = {}"
  using ex_nodes_distinct
    even_odd_partition [of "ref_deps ex_doc" "[ex_div1, ex_div3, ex_span4]" DNull ex_opts]
  by (simp add: nths3)

text \<open>
  The claim as stated fails on a candidate list that holds a node twice: both results
  hold that node.
\<close>

theorem even_odd_overlap_counterexample:
  "filterByPosition (ref_deps ex_doc) ''even'' [ex_div1, ex_div1] DNull ex_opts = Inr [ex_div1]
   \<and> filterByPosition (ref_deps ex_doc) ''odd'' [ex_div1, ex_div1] DNull ex_opts = Inr [ex_div1]
   \<and> set [ex_div1] \<inter> set [ex_div1] \<noteq> {}"
  by (simp add: filterByPosition_even filterByPosition_odd nths_Cons)

lemma ex_gt0:
  "filterByPosition (ref_deps ex_doc) ''gt'' [ex_div1, ex_div3, ex_span4] (DStr ''0'') ex_opts
     = Inr [ex_div3, ex_span4]"
  by (simp add: filterByPosition_gt num_of_0 slice_from_def)

text \<open>
  Claim C10, as amended. For each of the nine filter names, \<open>filterByPosition\<close> returns a
  subsequence of the candidate list: the returned elements are candidates, in the
  candidates' relative order, and none is repeated when no candidate is. Every filter but
  \<open>not\<close> returns; \<open>not\<close> returns when the nested \<open>filterParsed\<close> does.
\<close>

theorem filterByPosition_subsequence:
  assumes "nm \<in> set filterNames"
  shows "(nm \<noteq> ''not'' \<longrightarrow> (\<exists>r. filterByPosition deps nm elems d opts = Inr r))
         \<and> (\<forall>r. filterByPosition deps nm elems d opts = Inr r \<longrightarrow>
               subseq r elems \<and> set r \<subseteq> set elems \<and> (distinct elems \<longrightarrow> distinct r))"
  using assms filterByPosition_total [of nm deps elems d opts]
  by (auto dest: filterByPosition_subseq subseq_set subseq_distinct)

theorem filterByPosition_subsequence_witness:
  "''gt'' \<in> set filterNames
   \<and> filterByPosition (ref_deps ex_doc) ''gt'' [ex_div1, ex_div3, ex_span4] (DStr ''0'') ex_opts
       = Inr [ex_div3, ex_span4]
   \<and> subseq [ex_div3, ex_span4] [ex_div1, ex_div3, ex_span4]
   \<and> distinct [ex_div1, ex_div3, ex_span4] \<and> distinct [ex_div3, ex_span4]"
proof -
  have n: "''gt'' \<in> set filterNames" by (simp add: filterNames_def)
  from filterByPosition_subsequence [OF n, of "ref_deps ex_doc" "[ex_div1, ex_div3, ex_span4]"
      "DStr ''0''" ex_opts] ex_gt0 ex_nodes_distinct n
  show ?thesis by simp
qed

text \<open>
  The claim as stated fails on a candidate list that holds a node twice: \<open>first\<close> passes
  the candidates through, and the node is repeated in the result.
\<close>

theorem filterByPosition_repeat_counterexample:
  "filterByPosition (ref_deps ex_doc) ''first'' [ex_div1, ex_div1] DNull ex_opts
     = Inr [ex_div1, ex_div1]
   \<and> \<not> distinct [ex_div1, ex_div1]"
  by (simp add: filterByPosition_first)

section \<open>Claims about filter\<close>

text \<open>
  Without a combinator, a filtered alternative is resolved on the candidate list itself
  (\<open>queryForSelector\<close> is false): every stage filters the list it is given.
\<close>

lemma findIndex_Some_less: "findIndex P xs = Some k \<Longrightarrow> k < length xs"
  by (induction xs arbitrary: k) (auto split: if_splits)

lemma filterElements_subseq:
  "filterElements deps (Many elements) sel opts = Inr r \<Longrightarrow> subseq r elements"
proof -
  assume a: "filterElements deps (Many elements) sel opts = Inr r"
  have 1: "subseq (filter isTag elements) elements" by simp
  have 2: "\<And>P. subseq (filter P (filter isTag elements)) elements"
    using subseq_order.trans [OF subseq_filter_left 1] .
  from a 1 2 show ?thesis
    by (auto simp: filterElements_def Let_def split: if_splits sum.splits)
qed

lemma list_ex_take: "\<not> list_ex P xs \<Longrightarrow> \<not> list_ex P (take k xs)"
  by (auto simp: list_ex_iff dest: in_set_takeD)

lemma list_ex_drop: "\<not> list_ex P xs \<Longrightarrow> \<not> list_ex P (drop k xs)"
  by (auto simp: list_ex_iff dest: in_set_dropD)

lemma findFilterElements_flat_subseq:
  assumes "\<not> list_ex isTraversal selector"
    and "findFilterElements deps (Many elements) selector opts False totalLimit = Inr r"
  shows "subseq r elements"
  using assms
proof (induction "length selector" arbitrary: selector elements opts r rule: less_induct)
  case less
  from less.prems(2) obtain k where k: "findIndex (isFilter deps) selector = Some k"
    by (subst (asm) findFilterElements.simps) (auto split: option.splits)
  then have klen: "k < length selector" by (rule findIndex_Some_less)
  from less.prems(2) k obtain nm d where tok: "selector ! k = Pseudo nm d"
    by (subst (asm) findFilterElements.simps) (auto split: selector.splits)
  define partLimit where "partLimit = (if length selector - 1 = k then totalLimit else \<infinity>)"
  define limit where "limit = getLimit deps nm d partLimit"
  define sub where "sub = take k selector"
  have nosub: "\<not> list_ex isTraversal sub"
    using less.prems(1) by (simp add: sub_def list_ex_take)
  define cand where "cand = (if sub = [] then Inr (filter isTag elements)
                             else filterElements deps (Many elements) [sub] opts)"
  have unfold: "findFilterElements deps (Many elements) selector opts False totalLimit =
     (if limit = 0 then Inr []
      else case cand of
        Inl e \<Rightarrow> Inl e
      | Inr elemsNoLimit \<Rightarrow>
         (case filterByPosition deps nm (slice_to limit elemsNoLimit) d opts of
            Inl e \<Rightarrow> Inl e
          | Inr result \<Rightarrow>
              if result = [] \<or> length selector = k + 1 then Inr result
              else
               (let remaining = drop (k + 1) selector;
                    opts' = (if rootFunc opts \<noteq> None \<and> rootFunc opts \<noteq> Some TrueFunc
                             then opts\<lparr>rootFunc := Some TrueFunc\<rparr> else opts)
                in if list_ex (isFilter deps) remaining
                   then findFilterElements deps (Many result) remaining opts' False totalLimit
                   else filterElements deps (Many result) [remaining] opts')))"
    using k tok nosub less.prems(1)
    by (subst findFilterElements.simps)
       (simp add: Let_def partLimit_def limit_def sub_def cand_def list_ex_drop
             cong: sum.case_cong if_cong)
  show ?case
  proof (cases "limit = 0")
    case True
    with less.prems(2) unfold show ?thesis by simp
  next
    case False
    with less.prems(2) unfold obtain elemsNoLimit where c: "cand = Inr elemsNoLimit"
      by (auto split: sum.splits)
    then have s1: "subseq elemsNoLimit elements"
      by (auto simp: cand_def split: if_splits dest: filterElements_subseq)
    from less.prems(2) unfold False c obtain result
      where fb: "filterByPosition deps nm (slice_to limit elemsNoLimit) d opts = Inr result"
      by (auto split: sum.splits)
    have s2: "subseq result elements"
      using filterByPosition_subseq [OF fb] subseq_slice_to [of limit elemsNoLimit] s1
      by (meson subseq_order.trans)
    show ?thesis
    proof (cases "result = [] \<or> length selector = k + 1")
      case True
      with less.prems(2) unfold False c fb s2 show ?thesis by auto
    next
      case stop: False
      define remaining where "remaining = drop (k + 1) selector"
      define opts' where "opts' = (if rootFunc opts \<noteq> None \<and> rootFunc opts \<noteq> Some TrueFunc
                             then opts\<lparr>rootFunc := Some TrueFunc\<rparr> else opts)"
      have rlen: "length remaining < length selector"
        using klen by (simp add: remaining_def)
      have rnot: "\<not> list_ex isTraversal remaining"
        using less.prems(1) by (simp add: remaining_def list_ex_drop)
      from less.prems(2) unfold False c fb stop
      have r: "(if list_ex (isFilter deps) remaining
                then findFilterElements deps (Many result) remaining opts' False totalLimit
                else filterElements deps (Many result) [remaining] opts') = Inr r"
        by (auto simp: Let_def remaining_def opts'_def split: if_splits)
      have "subseq r result"
      proof (cases "list_ex (isFilter deps) remaining")
        case True
        with r less.hyps [OF rlen rnot] show ?thesis by simp
      next
        case False
        with r show ?thesis by (auto dest: filterElements_subseq)
      qed
      with s2 show ?thesis by (meson subseq_order.trans)
    qed
  qed
qed

lemma filterBySelector_flat_subseq:
  assumes "\<not> list_ex isTraversal selector"
    and "filterBySelector deps selector elements opts = Inr r"
  shows "subseq r elements"
  using assms
  by (subst (asm) filterBySelector.simps) (auto dest: findFilterElements_flat_subseq)

lemma finish_subseq: "subseq (finish elements found) elements"
  by (auto simp: finish_def split: option.splits)

lemma filterParsed_loop_Nil:
  "filterParsed_loop deps elements opts [] found = Inr (finish elements found)"
  by (subst filterParsed_loop.simps) simp

lemma filterParsed_loop_flat_subseq:
  assumes "\<forall>alt \<in> set fsels. \<not> list_ex isTraversal alt"
    and "filterParsed_loop deps elements opts fsels found = Inr r"
  shows "subseq r elements"
  using assms
proof (induction fsels arbitrary: found)
  case Nil
  then show ?case
    by (auto simp: filterParsed_loop_Nil finish_subseq)
next
  case (Cons alt rest)
  from Cons.prems(1) have flat: "\<not> list_ex isTraversal alt"
    and rest: "\<forall>alt \<in> set rest. \<not> list_ex isTraversal alt"
    by simp_all
  have ih: "\<And>f. filterParsed_loop deps elements opts rest f = Inr r \<Longrightarrow> subseq r elements"
    using Cons.IH [OF rest] .
  have sel: "\<And>x. filterBySelector deps alt elements opts = Inr x \<Longrightarrow> subseq x elements"
    using filterBySelector_flat_subseq [OF flat] .
  from Cons.prems(2) show ?case
    by (subst (asm) filterParsed_loop.simps)
       (auto simp: finish_subseq filterParsed_loop_Nil split: if_splits sum.splits option.splits
             dest: sel ih)
qed

lemma filterParsed_flat_subseq:
  assumes "\<forall>alt \<in> set S. list_ex (isFilter deps) alt \<longrightarrow> \<not> list_ex isTraversal alt"
    and "filterParsed deps S elements opts = Inr r"
  shows "subseq r elements"
proof -
  from assms(1) have flat: "\<forall>alt \<in> set (snd (groupSelectors deps S)). \<not> list_ex isTraversal alt"
    by (simp add: groupSelectors_def)
  from assms(2) show ?thesis
    by (subst (asm) filterParsed.simps)
       (auto simp: Let_def split: if_splits sum.splits
             dest: filterElements_subseq filterParsed_loop_flat_subseq [OF flat])
qed

lemma ex_parse_div_first: "parse (ref_deps ex_doc) ''div:first'' = Inr [[Tag ''div'' None, Pseudo ''first'' DNull]]"
  by (simp add: ref_deps_def ref_parse_def)

lemma ex_filter_div_first:
  "filter_cs (ref_deps ex_doc) ''div:first'' [ex_span4, ex_div3, ex_div1] ex_opts = Inr [ex_div3]"
  by code_simp

text \<open>
  Claim C4, as amended. For a selector string that parses and whose alternatives with a
  positional filter contain no combinator, a list returned by \<open>filter\<close> is a subsequence of
  \<open>nodes\<close>: every returned node is a member of \<open>nodes\<close>, the relative order of \<open>nodes\<close> is
  kept, and no node appears twice when none does in \<open>nodes\<close>.
\<close>

theorem filter_subsequence:
  assumes "parse deps sel = Inr S"
    and "\<forall>alt \<in> set S. list_ex (isFilter deps) alt \<longrightarrow> \<not> list_ex isTraversal alt"
    and "filter_cs deps sel nodes opts = Inr r"
  shows "subseq r nodes \<and> set r \<subseteq> set nodes \<and> (distinct nodes \<longrightarrow> distinct r)"
proof -
  from assms(1,3) have "filterParsed deps S nodes opts = Inr r"
    by (simp add: filter_cs_def)
  from filterParsed_flat_subseq [OF assms(2) this] show ?thesis
    by (auto dest: subseq_set subseq_distinct)
qed

theorem filter_subsequence_witness:
  "parse (ref_deps ex_doc) ''div:first'' = Inr [[Tag ''div'' None, Pseudo ''first'' DNull]]
   \<and> filter_cs (ref_deps ex_doc) ''div:first'' [ex_span4, ex_div3, ex_div1] ex_opts = Inr [ex_div3]
   \<and> subseq [ex_div3] [ex_span4, ex_div3, ex_div1]"
  using filter_subsequence [OF ex_parse_div_first _ ex_filter_div_first]
    ex_parse_div_first ex_filter_div_first
  by simp

lemma ex_filter_div_twice:
  "filter_cs (ref_deps ex_doc) ''div'' [ex_div1, ex_div1] ex_opts = Inr [ex_div1, ex_div1]"
  by code_simp

text \<open>
  The claim as stated fails on a node list that holds a node twice: \<open>filter\<close> keeps both
  occurrences.
\<close>

theorem filter_repeat_counterexample:
  "filter_cs (ref_deps ex_doc) ''div'' [ex_div1, ex_div1] ex_opts = Inr [ex_div1, ex_div1]
   \<and> \<not> distinct [ex_div1, ex_div1]"
  using ex_filter_div_twice by simp

text \<open>
  A filtered alternative with a combinator is resolved from the document root, with the
  candidates as the scope, and the early return of \<open>filterParsed\<close> hands the list back as
  it is. On the second example document the candidates \<open>span#4\<close>, \<open>span#2\<close> come back
  in document order, not in the order given.
\<close>

lemma ex2_filter_document_order:
  "filter_cs (ref_deps ex2_doc) ''div span:even'' [ex2_span4, ex2_span2] ex_opts
     = Inr [ex2_span2, ex2_span4]
   \<and> \<not> subseq [ex2_span2, ex2_span4] [ex2_span4, ex2_span2]"
proof -
  have "filter_cs (ref_deps ex2_doc) ''div span:even'' [ex2_span4, ex2_span2] ex_opts
     = Inr [ex2_span2, ex2_span4]"
    by code_simp
  moreover have "\<not> subseq [ex2_span2, ex2_span4] [ex2_span4, ex2_span2]"
    by (simp add: ex2_span2_def ex2_span4_def)
  ultimately show ?thesis by simp
qed

section \<open>The fast paths as a search in pre-order\<close>

text \<open>
  The loop of the fast paths returns the first \<open>limit\<close> hits of the pre-order traversal
  of the nodes on the stack, after the results it starts with.
\<close>

lemma preorder_unfold: "preorder n = n # concat (map preorder (getChildren n))"
  by (cases n) (simp add: getChildren_def)

lemma slice_to_Cons:
  "enat k < l \<Longrightarrow> slice_to (l - enat k) (x # xs) = x # slice_to (l - enat (Suc k)) xs"
proof (cases l)
  case (enat m)
  assume "enat k < l"
  with enat have "k < m" by simp
  then have "m - k = Suc (m - Suc k)" by simp
  with enat show ?thesis by (simp add: slice_to_def)
next
  case infinity
  then show ?thesis by (simp add: slice_to_def)
qed

lemma slice_to_none: "\<not> enat k < l \<Longrightarrow> slice_to (l - enat k) xs = []"
  by (cases l) (simp_all add: slice_to_def)

lemma slice_to_last: "enat k < l \<Longrightarrow> l \<le> enat (Suc k) \<Longrightarrow> slice_to (l - enat k) (x # xs) = [x]"
proof (cases l)
  case (enat m)
  assume "enat k < l" "l \<le> enat (Suc k)"
  with enat have "m - k = Suc 0" by simp
  with enat show ?thesis by (simp add: slice_to_def)
next
  case infinity
  assume "l \<le> enat (Suc k)"
  with infinity show ?thesis by simp
qed

lemma fastFind_loop_eq:
  "fastFind_loop hit limit stack results =
     results @ slice_to (limit - enat (length results)) (filter hit (concat (map preorder stack)))"
proof (induction hit limit stack results rule: fastFind_loop.induct)
  case (1 hit limit stack results)
  show ?case
  proof (cases stack)
    case Nil
    then show ?thesis
      by (subst fastFind_loop.simps) (cases "limit - enat (length results)"; simp add: slice_to_def)
  next
    case (Cons node rest)
    show ?thesis
    proof (cases "enat (length results) < limit")
      case False
      with Cons show ?thesis
        by (subst fastFind_loop.simps) (simp add: slice_to_none)
    next
      case lt: True
      have pre: "concat (map preorder stack) =
                 node # concat (map preorder (getChildren node @ rest))"
        using Cons by (simp add: preorder_unfold [of node])
      show ?thesis
      proof (cases "hit node")
        case hit: True
        show ?thesis
        proof (cases "limit \<le> enat (Suc (length results))")
          case True
          with Cons lt hit pre show ?thesis
            by (subst fastFind_loop.simps) (simp add: slice_to_last)
        next
          case False
          with "1.IH" [OF Cons] lt hit
          have "fastFind_loop hit limit (getChildren node @ rest) (results @ [node]) =
                (results @ [node]) @ slice_to (limit - enat (length (results @ [node])))
                   (filter hit (concat (map preorder (getChildren node @ rest))))"
            by simp
          with Cons lt hit False pre show ?thesis
            by (subst fastFind_loop.simps) (simp add: slice_to_Cons)
        qed
      next
        case nohit: False
        with "1.IH" [OF Cons] lt
        have "fastFind_loop hit limit (getChildren node @ rest) results =
                results @ slice_to (limit - enat (length results))
                   (filter hit (concat (map preorder (getChildren node @ rest))))"
          by simp
        with Cons lt nohit pre show ?thesis
          by (subst fastFind_loop.simps) simp
      qed
    qed
  qed
qed

lemma fastFind_root:
  "fastFind_loop hit limit [rt] [] = slice_to limit (filter hit (preorder rt))"
  by (simp add: fastFind_loop_eq zero_enat_def [symmetric])

section \<open>Claims about select\<close>


lemma subseq_concat_map:
  "subseq xs ys \<Longrightarrow> subseq (concat (map f xs)) (concat (map f ys))"
  by (induction rule: list_emb.induct) (auto intro: subseq_drop_many simp: subseq_append')

lemma fastPath_eq:
  "fastPath rt sel limit = Some res \<Longrightarrow> \<exists>hit. res = slice_to limit (filter hit (preorder rt))"
  by (auto simp: fastPath_def fastFindById_def fastFindByClass_def fastFindByTag_def
        fastFind_root split: option.splits list.splits)

lemma length_slice_to: "length (slice_to (enat L) xs) \<le> L"
  by (simp add: slice_to_def)

lemma findElements_bounded:
  assumes "find_bounded deps L" "findElements deps rt sel opts (enat L) = Inr r"
  shows "length r \<le> L"
proof (cases "case rt of Single x \<Rightarrow> fastPath x sel (enat L) | Many rs \<Rightarrow> None")
  case None
  with assms show ?thesis
    by (auto simp: findElements_def compiledFind_def find_cs_def find_bounded_def Let_def
          split: sum.splits)
next
  case (Some res)
  with assms(2) have "res = r" by (simp add: findElements_def)
  with Some show ?thesis
    by (auto split: search_root.splits dest!: fastPath_eq simp: length_slice_to)
qed

lemma select_plain:
  assumes "parse deps s = Inr S" "snd (groupSelectors deps S) = []"
  shows "select deps (SelString s) rt opts limit =
           (if S = [] then Inr [] else findElements deps rt S opts limit)"
proof -
  from assms(2) have "fst (groupSelectors deps S) = S"
    by (simp add: groupSelectors_def filter_empty_conv filter_id_conv)
  with assms show ?thesis
    by (auto simp: select_def Let_def split: sum.splits)
qed

lemma ref_find_bounded: "0 < L \<Longrightarrow> find_bounded (ref_deps doc) L"
  by (auto simp: find_bounded_def ref_deps_def ref_domFind_def slice_to_def max_def
        one_enat_def split: enat.splits)


lemma ex_parse_first_span:
  "parse (ref_deps ex_doc) ''div:first, span'' =
     Inr [[Tag ''div'' None, Pseudo ''first'' DNull], [Tag ''span'' None]]"
  by (simp add: ref_deps_def ref_parse_def)

lemma ex_parse_div_span:
  "parse (ref_deps ex_doc) ''div, span'' = Inr [[Tag ''div'' None], [Tag ''span'' None]]"
  by (simp add: ref_deps_def ref_parse_def)

lemma ex_group_div_span:
  "snd (groupSelectors (ref_deps ex_doc) [[Tag ''div'' None], [Tag ''span'' None]]) = []"
  by (simp add: groupSelectors_def ref_deps_def)

lemma ex_select_div_span_1:
  "select (ref_deps ex_doc) (SelString ''div, span'') (Single ex_doc) ex_opts (enat 1) = Inr [ex_div1]"
  by code_simp

text \<open>
  Claim C3, as amended. For a finite limit \<open>L\<close> and a selector string that parses into
  alternatives without a positional filter, a list returned by \<open>select\<close> has at most \<open>L\<close>
  elements, provided the tree search returns at most \<open>L\<close> hits for the limit \<open>L\<close>.
\<close>

theorem select_limit_plain:
  assumes "parse deps s = Inr S" and "snd (groupSelectors deps S) = []"
    and "find_bounded deps L"
    and "select deps (SelString s) rt opts (enat L) = Inr r"
  shows "length r \<le> L"
  using assms select_plain [OF assms(1,2), of rt opts "enat L"]
  by (auto split: if_splits dest: findElements_bounded)

theorem select_limit_plain_witness:
  "parse (ref_deps ex_doc) ''div, span'' = Inr [[Tag ''div'' None], [Tag ''span'' None]]
   \<and> snd (groupSelectors (ref_deps ex_doc) [[Tag ''div'' None], [Tag ''span'' None]]) = []
   \<and> find_bounded (ref_deps ex_doc) 1
   \<and> select (ref_deps ex_doc) (SelString ''div, span'') (Single ex_doc) ex_opts (enat 1) = Inr [ex_div1]
   \<and> length [ex_div1] \<le> 1"
  using select_limit_plain [OF ex_parse_div_span ex_group_div_span ref_find_bounded ex_select_div_span_1]
    ex_parse_div_span ex_group_div_span ref_find_bounded [of 1 ex_doc] ex_select_div_span_1
  by simp

lemma ex_select_first_span_1:
  "select (ref_deps ex_doc) (SelString ''div:first, span'') (Single ex_doc) ex_opts (enat 1)
     = Inr [ex_div1, ex_span2]"
  by code_simp

text \<open>
  The claim as stated fails when result lists are merged: each alternative is searched
  with the limit, and the merged list is not cut. With the limit 1, \<open>div:first, span\<close>
  returns two elements.
\<close>

theorem select_limit_merged_counterexample:
  "select (ref_deps ex_doc) (SelString ''div:first, span'') (Single ex_doc) ex_opts (enat 1)
     = Inr [ex_div1, ex_span2]
   \<and> \<not> length [ex_div1, ex_span2] \<le> 1"
  using ex_select_first_span_1 by simp











lemma scope_sibling_start_take: "scope_sibling_start (take n xs) \<Longrightarrow> scope_sibling_start xs"
proof (induction xs rule: scope_sibling_start.induct)
  case (1 a b rest)
  then show ?case by (cases n; cases "n - 1") auto
next
  case (2 a)
  then show ?case by (cases n) auto
next
  case 3
  then show ?case by simp
qed



lemma no_sibling_after_filter_take:
  "no_sibling_after_filter deps xs \<Longrightarrow> no_sibling_after_filter deps (take n xs)"
proof (induction xs arbitrary: n)
  case Nil
  then show ?case by simp
next
  case (Cons a xs)
  then show ?case by (cases n) (auto dest: scope_sibling_start_take)
qed













lemma ex_select_first_span_all:
  "select (ref_deps ex_doc) (SelString ''div:first, span'') (Single ex_doc) ex_opts \<infinity>
     = Inr [ex_div1, ex_span2, ex_span4]"
  by code_simp


text \<open>
  A sibling combinator after a positional filter: the filtered nodes and their following
  siblings become the roots of the next search, in that order, and a single result list
  is not sorted. On the third example document \<open>div:lt(2) ~ *\<close> returns \<open>div#4\<close> before
  \<open>span#3\<close>.
\<close>

lemma ex3_select_sibling_order:
  "select (ref_deps ex3_doc) (SelString ''div:lt(2) ~ *'') (Single ex3_doc) ex_opts \<infinity>
     = Inr [ex3_div4, ex3_span3, ex3_span5]
   \<and> preorder ex3_doc = [ex3_doc, ex3_span1, ex3_div2, ex3_span3, ex3_div4, ex3_span5]"
proof -
  have "select (ref_deps ex3_doc) (SelString ''div:lt(2) ~ *'') (Single ex3_doc) ex_opts \<infinity>
     = Inr [ex3_div4, ex3_span3, ex3_span5]"
    by code_simp
  moreover have "preorder ex3_doc = [ex3_doc, ex3_span1, ex3_div2, ex3_span3, ex3_div4, ex3_span5]"
    by (simp add: ex3_doc_def ex3_span1_def ex3_div2_def ex3_span3_def ex3_div4_def ex3_span5_def
          hasChildren_def isTag_def)
  ultimately show ?thesis by simp
qed

lemma ref_filter_guard: "filter_guard (ref_deps doc)"
proof -
  have "\<exists>nm d. tok = Pseudo nm d \<and> nm \<in> set filterNames" if "ref_isFilter tok" for tok
    using that by (cases tok) simp_all
  then show ?thesis by (simp add: filter_guard_def ref_deps_def)
qed









text \<open>
  A selector that starts with \<open>:scope\<close> and a sibling combinator, on a root list in
  document order: the roots and their following siblings are searched in that order, and
  the single result list is not sorted. On the third example document \<open>:scope ~ *\<close> on
  the roots \<open>div#2\<close> and \<open>div#4\<close> returns \<open>div#4\<close> before \<open>span#3\<close>. On the single
  root \<open>div#2\<close> the result is in document order.
\<close>

lemma ex3_select_scope_sibling:
  "select (ref_deps ex3_doc) (SelString '':scope ~ *'') (Many [ex3_div2, ex3_div4]) ex_opts \<infinity>
     = Inr [ex3_div4, ex3_span3, ex3_span5]"
  by code_simp

lemma ex3_select_scope_sibling_single:
  "select (ref_deps ex3_doc) (SelString '':scope ~ *'') (Single ex3_div2) ex_opts \<infinity>
     = Inr [ex3_span3, ex3_div4, ex3_span5]"
  by code_simp



lemma fastPath_ignores_options:
  assumes "fastPath rt sel limit = Some res"
  shows "findElements deps (Single rt) sel opts limit = Inr res"
    and "\<exists>hit. res = slice_to limit (filter hit (preorder rt))"
  using assms by (simp_all add: findElements_def fastPath_eq)

lemma fastFindByTag_eq:
  "fastFindByTag rt tagName limit = slice_to limit (filter (tagHit tagName) (preorder rt))"
  by (simp add: fastFindByTag_def fastFind_root)

text \<open>
  Claim C2 says that the fast paths return what the general path returns for the same
  root, selector, options and limit. The fast path of the tag test folds both names to
  lower case whatever the options say, and every fast path tests the root itself; the
  general path compares tag names as they are in XML mode and searches below the root.
  On the example document the selector \<open>DIV\<close> in XML mode, and the selector \<open>div\<close> on
  the root \<open>div#3\<close>, give different results on the two paths.
\<close>

theorem fast_path_divergence:
  "findElements (ref_deps ex_doc) (Single ex_doc) [[Tag ''DIV'' None]]
      (ex_opts\<lparr>xmlMode := True\<rparr>) \<infinity> = Inr [ex_div1, ex_div3]
   \<and> compiledFind (ref_deps ex_doc) (Single ex_doc) [[Tag ''DIV'' None]]
      (ex_opts\<lparr>xmlMode := True\<rparr>) \<infinity> = Inr []
   \<and> findElements (ref_deps ex_doc) (Single ex_div3) [[Tag ''div'' None]] ex_opts \<infinity> = Inr [ex_div3]
   \<and> compiledFind (ref_deps ex_doc) (Single ex_div3) [[Tag ''div'' None]] ex_opts \<infinity> = Inr []"
  by code_simp

section \<open>Claims about empty inputs\<close>

lemma findIndex_list_ex:
  "list_ex P xs \<Longrightarrow> \<exists>k. findIndex P xs = Some k \<and> k < length xs \<and> P (xs ! k)"
proof (induction xs)
  case Nil
  then show ?case by simp
next
  case (Cons x xs)
  show ?case
  proof (cases "P x")
    case True
    then show ?thesis by simp
  next
    case False
    with Cons obtain k where "findIndex P xs = Some k" "k < length xs" "P (xs ! k)"
      by auto
    with False show ?thesis by simp
  qed
qed

lemma filterParsed_empty: "filterParsed deps S [] opts = Inr []"
  by (subst filterParsed.simps) simp

lemma filterByPosition_empty:
  "nm \<in> set filterNames \<Longrightarrow> filterByPosition deps nm [] d opts = Inr []"
  by (subst filterByPosition.simps)
     (auto simp: filterNames_def filterParsed_empty slice_from_def Let_def
           stride2_loop.simps [of "[]"]
           split: option.splits data.splits)

lemma findElements_empty_root:
  assumes "empty_search deps" "compileToken deps sel opts (Some (Many [])) = Inr q"
  shows "findElements deps (Many []) sel opts limit = Inr []"
  using assms by (simp add: findElements_def compiledFind_def find_cs_def empty_search_def)

lemma filterElements_empty: "filterElements deps (Many []) sel opts = Inr []"
  by (simp add: filterElements_def)

lemma slice_to_Nil: "slice_to l [] = []"
  by (cases l) (simp_all add: slice_to_def)

lemma findFilterElements_empty_root:
  assumes guard: "filter_guard deps" and fil: "list_ex (isFilter deps) alt"
    and deep: "qs \<or> list_ex isTraversal alt \<Longrightarrow>
           empty_search deps \<and>
           (\<forall>k. findIndex (isFilter deps) alt = Some k \<and> k \<noteq> 0 \<longrightarrow>
                (\<exists>q. compileToken deps [take k alt] opts (Some (Many [])) = Inr q))"
  shows "findFilterElements deps (Many []) alt opts qs lm = Inr []"
proof -
  from findIndex_list_ex [OF fil] obtain k where k: "findIndex (isFilter deps) alt = Some k"
    and klen: "k < length alt" and pk: "isFilter deps (alt ! k)" by blast
  from guard pk obtain nm d where tok: "alt ! k = Pseudo nm d" and nm: "nm \<in> set filterNames"
    by (auto simp: filter_guard_def)
  define limit where "limit = getLimit deps nm d (if length alt - 1 = k then lm else \<infinity>)"
  have cand: "candidates deps (Many []) (take k alt) opts qs limit = Inr []"
  proof (cases "take k alt = []")
    case True
    then show ?thesis by (simp add: candidates_def)
  next
    case ne: False
    then have k0: "k \<noteq> 0" by auto
    show ?thesis
    proof (cases "qs \<or> list_ex isTraversal (take k alt)")
      case True
      then have "qs \<or> list_ex isTraversal alt"
        by (auto simp: list_ex_iff dest: in_set_takeD)
      from deep [OF this] k k0 obtain q
        where es: "empty_search deps"
          and "compileToken deps [take k alt] opts (Some (Many [])) = Inr q"
        by auto
      with ne True show ?thesis by (simp add: candidates_def findElements_empty_root)
    next
      case False
      with ne show ?thesis by (simp add: candidates_def filterElements_empty)
    qed
  qed
  show ?thesis
    by (simp add: findFilterElements_stage [OF k tok limit_def] cand slice_to_Nil
          filterByPosition_empty [OF nm])
qed

lemma filtered_has_filter: "alt \<in> set (snd (groupSelectors deps S)) \<Longrightarrow> list_ex (isFilter deps) alt"
  by (simp add: groupSelectors_def)

lemma select_parts_prefix:
  assumes "alt \<in> set (snd (groupSelectors deps S))"
    and "findIndex (isFilter deps) alt = Some k" "k \<noteq> 0"
  shows "[take k alt] \<in> set (select_parts deps S)"
proof -
  from assms(2,3) have "[take k alt] \<in> set (case findIndex (isFilter deps) alt of
                           None \<Rightarrow> []
                         | Some k \<Rightarrow> if k = 0 then [] else [[take k alt]])"
    by simp
  with assms(1) show ?thesis
    unfolding select_parts_def set_append set_concat set_map by blast
qed

lemma select_parts_plain:
  "fst (groupSelectors deps S) \<noteq> [] \<Longrightarrow> fst (groupSelectors deps S) \<in> set (select_parts deps S)"
  by (simp add: select_parts_def)

lemma map_filtered_empty_root:
  assumes "filter_guard deps" "empty_search deps"
    and "\<forall>sel \<in> set (select_parts deps S). \<exists>q. compileToken deps sel opts (Some (Many [])) = Inr q"
    and "set fs \<subseteq> set (snd (groupSelectors deps S))"
  shows "map_filtered deps (Many []) opts lm fs = Inr (replicate (length fs) [])"
  using assms(4)
proof (induction fs)
  case Nil
  show ?case by simp
next
  case (Cons alt rest)
  then have mem: "alt \<in> set (snd (groupSelectors deps S))" by simp
  have "findFilterElements deps (Many []) alt opts True lm = Inr []"
  proof (rule findFilterElements_empty_root [OF assms(1) filtered_has_filter [OF mem]])
    have "\<exists>q. compileToken deps [take k alt] opts (Some (Many [])) = Inr q"
      if "findIndex (isFilter deps) alt = Some k" "k \<noteq> 0" for k
      using assms(3) select_parts_prefix [OF mem that] by (rule bspec)
    with assms(2)
    show "empty_search deps \<and>
          (\<forall>k. findIndex (isFilter deps) alt = Some k \<and> k \<noteq> 0 \<longrightarrow>
               (\<exists>q. compileToken deps [take k alt] opts (Some (Many [])) = Inr q))"
      by simp
  qed
  with Cons show ?case by simp
qed

lemma concat_replicate_Nil: "concat (replicate n [] @ xs) = concat xs"
  by (induction n) simp_all

lemma select_empty_root:
  assumes "parse deps s = Inr S" "filter_guard deps" "empty_search deps"
    and "\<forall>sel \<in> set (select_parts deps S). \<exists>q. compileToken deps sel opts (Some (Many [])) = Inr q"
  shows "select deps (SelString s) (Many []) opts lm = Inr []"
proof -
  define n where "n = length (snd (groupSelectors deps S))"
  have mf: "map_filtered deps (Many []) opts lm (snd (groupSelectors deps S)) = Inr (replicate n [])"
    unfolding n_def by (rule map_filtered_empty_root [OF assms(2,3,4)]) simp
  have es: "uniqueSort deps [] = []" using assms(3) by (simp add: empty_search_def)
  show ?thesis
  proof (cases "fst (groupSelectors deps S) = []")
    case True
    have "replicate n ([]::node list) ! 0 = []" if "n = 1" using that by simp
    moreover have "concat (replicate n ([]::node list)) = []"
      using concat_replicate_Nil [of n "[]"] by simp
    ultimately show ?thesis
      using assms(1) mf True es by (auto simp: select_def Let_def)
  next
    case False
    from assms(4) select_parts_plain [OF False] obtain q
      where "compileToken deps (fst (groupSelectors deps S)) opts (Some (Many [])) = Inr q"
      by blast
    then have fe: "findElements deps (Many []) (fst (groupSelectors deps S)) opts lm = Inr []"
      by (rule findElements_empty_root [OF assms(3)])
    have "(replicate n ([]::node list) @ [[]]) ! 0 = []"
      by (cases n) simp_all
    moreover have "concat (replicate n ([]::node list) @ [[]]) = []"
      using concat_replicate_Nil [of n "[[]]"] by simp
    ultimately show ?thesis
      using assms(1) mf False fe es by (auto simp: select_def Let_def)
  qed
qed

lemma some_filtered_empty:
  assumes "filter_guard deps"
    and "\<forall>alt \<in> set fs. list_ex (isFilter deps) alt \<and> \<not> list_ex isTraversal alt"
  shows "some_filtered deps fs [] opts = Inr False"
  using assms(2)
proof (induction fs)
  case Nil
  show ?case by simp
next
  case (Cons alt rest)
  then have fil: "list_ex (isFilter deps) alt" and flat: "\<not> list_ex isTraversal alt" by simp_all
  have "findFilterElements deps (Many []) alt opts False (enat 0) = Inr []"
    by (rule findFilterElements_empty_root [OF assms(1) fil]) (use flat in simp)
  with flat have "filterBySelector deps alt [] opts = Inr []"
    by (subst filterBySelector.simps) simp
  with Cons show ?case by simp
qed

lemma some_empty:
  assumes "parse deps s = Inr S" "filter_guard deps"
    and "fst (groupSelectors deps S) = [] \<or>
         (\<exists>q. compileToken deps (fst (groupSelectors deps S)) opts None = Inr q)"
    and "\<forall>alt \<in> set (snd (groupSelectors deps S)). \<not> list_ex isTraversal alt"
  shows "some deps [] (SelString s) opts = Inr False"
proof -
  have "some_filtered deps (snd (groupSelectors deps S)) [] opts = Inr False"
    by (rule some_filtered_empty [OF assms(2)]) (use assms(4) filtered_has_filter in blast)
  with assms(1,3) show ?thesis
    by (auto simp: some_def Let_def)
qed

lemma ref_empty_search: "empty_search (ref_deps doc)"
  by (simp add: empty_search_def ref_deps_def ref_prepareContext_def removeSubsets_def
        ref_domFind_def slice_to_Nil ref_uniqueSort_def)

lemma ex_first_span_groups:
  "groupSelectors (ref_deps ex_doc) [[Tag ''div'' None, Pseudo ''first'' DNull], [Tag ''span'' None]]
     = ([[Tag ''span'' None]], [[Tag ''div'' None, Pseudo ''first'' DNull]])"
  by (simp add: groupSelectors_def ref_deps_def filterNames_def)

lemma ex_first_span_parts:
  "select_parts (ref_deps ex_doc) [[Tag ''div'' None, Pseudo ''first'' DNull], [Tag ''span'' None]]
     = [[[Tag ''span'' None]], [[Tag ''div'' None]]]"
  by (simp add: select_parts_def ex_first_span_groups) (simp add: ref_deps_def filterNames_def)

lemma ex_first_span_compiles:
  "\<forall>sel \<in> set [[[Tag ''span'' None]], [[Tag ''div'' None]]].
     \<exists>q. compileToken (ref_deps ex_doc) sel ex_opts c = Inr q"
  by (simp add: ref_deps_def ref_compileToken_def)

text \<open>
  Claim C9, as amended. For a selector string that the parser accepts, \<open>filter\<close> on an
  empty candidate list returns the empty list; \<open>select\<close> on an empty root list returns the
  empty list when the compiler accepts the parts of the selector it is given; and \<open>some\<close>
  on an empty list returns false when the compiler accepts the plain alternatives and no
  filtered alternative contains a combinator.
\<close>

theorem empty_inputs:
  assumes "parse deps s = Inr S"
  shows "filter_cs deps s [] opts = Inr []
    \<and> (filter_guard deps \<and> empty_search deps
        \<and> (\<forall>sel \<in> set (select_parts deps S). \<exists>q. compileToken deps sel opts (Some (Many [])) = Inr q)
       \<longrightarrow> select deps (SelString s) (Many []) opts lm = Inr [])
    \<and> (filter_guard deps
        \<and> (fst (groupSelectors deps S) = [] \<or>
            (\<exists>q. compileToken deps (fst (groupSelectors deps S)) opts None = Inr q))
        \<and> (\<forall>alt \<in> set (snd (groupSelectors deps S)). \<not> list_ex isTraversal alt)
       \<longrightarrow> some deps [] (SelString s) opts = Inr False)"
  using assms select_empty_root [OF assms, of opts lm] some_empty [OF assms, of opts]
  by (simp add: filter_cs_def filterParsed_empty)

theorem empty_inputs_witness:
  "parse (ref_deps ex_doc) ''div:first, span'' =
     Inr [[Tag ''div'' None, Pseudo ''first'' DNull], [Tag ''span'' None]]
   \<and> filter_cs (ref_deps ex_doc) ''div:first, span'' [] ex_opts = Inr []
   \<and> select (ref_deps ex_doc) (SelString ''div:first, span'') (Many []) ex_opts \<infinity> = Inr []
   \<and> some (ref_deps ex_doc) [] (SelString ''div:first, span'') ex_opts = Inr False"
  using empty_inputs [OF ex_parse_first_span, of ex_opts \<infinity>]
    ex_parse_first_span ref_filter_guard [of ex_doc] ref_empty_search [of ex_doc]
    ex_first_span_compiles [of "Some (Many [])"] ex_first_span_compiles [of None]
  by (simp add: ex_first_span_parts ex_first_span_groups)

text \<open>
  The claim as stated fails on a selector string that the parser rejects, here an
  attribute selector that is not closed: the three operations parse the selector before
  they look at the nodes, and the error of the parser reaches the caller.
\<close>

theorem empty_filter_syntax_error_counterexample:
  "filter_cs (ref_deps ex_doc) ''['' [] ex_opts = Inl SyntaxError
   \<and> select (ref_deps ex_doc) (SelString ''['') (Many []) ex_opts \<infinity> = Inl SyntaxError
   \<and> some (ref_deps ex_doc) [] (SelString ''['') ex_opts = Inl SyntaxError"
  by (simp add: filter_cs_def select_def some_def ref_deps_def ref_parse_def)

text \<open>
  \<open>some\<close> calls \<open>filterBySelector\<close> without the test for an empty list that
  \<open>filterParsed\<close> makes first; a filtered alternative with a combinator then reads the
  document root off \<open>elements[0]\<close>.
\<close>

lemma ex_some_traversal_raises:
  "some (ref_deps ex_doc) [] (SelString ''div:first span'') ex_opts = Inl TypeError"
  by code_simp

section \<open>Claims about the compiled-query cache\<close>





















end
